theory Spec2Isabelle
  imports Complex_Main
begin

section \<open>Python values shared by the two programs\<close>

text \<open>
  The repository has two programs: \<^verbatim>\<open>heatmap.py\<close> (class \<^verbatim>\<open>HeatMapper\<close>, the
  colour-state engine and transport client) and \<^verbatim>\<open>heatmap_server.py\<close> (class
  \<^verbatim>\<open>HeatMapServer\<close>, the transport server). Exceptions are values of \<open>error\<close>; a function
  that can raise returns \<open>error + 'a\<close> with \<open>Inl\<close> for the exception.
\<close>

datatype error =
  ValueError | KeyError | IndexError | SyntaxError | UnboundLocalError
  | ConnectionRefusedError | SocketError

definition and_then :: "error + 'a \<Rightarrow> ('a \<Rightarrow> error + 'b) \<Rightarrow> error + 'b" where
  "and_then m f = (case m of Inl e \<Rightarrow> Inl e | Inr x \<Rightarrow> f x)"

text \<open>
  A location is the tuple \<^verbatim>\<open>tuple(location)\<close> built from a \<^verbatim>\<open>[row, col]\<close> pair of the
  layout file. A colour is the Python list \<^verbatim>\<open>[r, g, b]\<close> of ints.
\<close>

type_synonym location = "int \<times> int"
type_synonym rgb = "int list"

text \<open>
  A Python \<^verbatim>\<open>dict\<close> keeps insertion order: it is an association list. Assigning to a key
  that is present replaces the value in place, assigning to a new key appends.
\<close>

fun dict_set :: "('k \<times> 'v) list \<Rightarrow> 'k \<Rightarrow> 'v \<Rightarrow> ('k \<times> 'v) list" where
  "dict_set [] k v = [(k, v)]"
| "dict_set ((k', v') # d) k v =
     (if k' = k then (k', v) # d else (k', v') # dict_set d k v)"

definition dict_get :: "('k \<times> 'v) list \<Rightarrow> 'k \<Rightarrow> 'v option" where
  "dict_get d k = map_of d k"

text \<open>\<^verbatim>\<open>d[k] += 1\<close>: raises \<^verbatim>\<open>KeyError\<close> when the key is missing.\<close>

definition dict_incr :: "('k \<times> nat) list \<Rightarrow> 'k \<Rightarrow> error + ('k \<times> nat) list" where
  "dict_incr d k = (case dict_get d k of None \<Rightarrow> Inl KeyError | Some c \<Rightarrow> Inr (dict_set d k (c + 1)))"

definition dict_of_pairs :: "('k \<times> 'v) list \<Rightarrow> ('k \<times> 'v) list" where
  "dict_of_pairs kvs = foldl (\<lambda>d (k, v). dict_set d k v) [] kvs"

section \<open>Text forms: \<^verbatim>\<open>str\<close>, \<^verbatim>\<open>json.dumps\<close>, \<^verbatim>\<open>json.loads\<close>, \<^verbatim>\<open>ast.literal_eval\<close>\<close>

text \<open>
  These are library functions of Python, modelled on the wire format of the programs: a JSON
  object whose keys are strings and whose values are arrays of integers. Decimal integers are
  written without leading zeros, with a minus sign when negative.
\<close>

definition digit_char :: "nat \<Rightarrow> char" where
  "digit_char n = ''0123456789'' ! n"

definition is_digit :: "char \<Rightarrow> bool" where
  "is_digit c = (c \<in> set ''0123456789'')"

definition digit_val :: "char \<Rightarrow> nat" where
  "digit_val c = of_char c - 48"

function str_nat :: "nat \<Rightarrow> string" where
  "str_nat n = (if n < 10 then [digit_char n] else str_nat (n div 10) @ [digit_char (n mod 10)])"
  by pat_completeness auto
termination
  by (relation "measure id") auto

declare str_nat.simps [simp del]

text \<open>\<^verbatim>\<open>str(i)\<close> and \<^verbatim>\<open>json.dumps(i)\<close> of an int.\<close>

definition str_int :: "int \<Rightarrow> string" where
  "str_int i = (if i < 0 then CHR ''-'' # str_nat (nat (- i)) else str_nat (nat i))"

definition nat_of_digits :: "string \<Rightarrow> nat" where
  "nat_of_digits ds = foldl (\<lambda>a c. 10 * a + digit_val c) 0 ds"

text \<open>\<^verbatim>\<open>sep.join(parts)\<close>.\<close>

fun join :: "string \<Rightarrow> string list \<Rightarrow> string" where
  "join sep [] = []"
| "join sep [x] = x"
| "join sep (x # y # ys) = x @ sep @ join sep (y # ys)"

text \<open>\<^verbatim>\<open>str(k)\<close> of a 2-tuple of ints: \<^verbatim>\<open>(0, 0)\<close>.\<close>

definition str_tuple :: "location \<Rightarrow> string" where
  "str_tuple k = ''('' @ str_int (fst k) @ '', '' @ str_int (snd k) @ '')''"

text \<open>
  \<^verbatim>\<open>json.dumps\<close> of a dict from strings to lists of ints, with the default separators
  \<^verbatim>\<open>", "\<close> and \<^verbatim>\<open>": "\<close>. Keys are written between double quotes as they are: the keys the
  client produces (\<open>str_tuple\<close>) hold no character that JSON escapes.
\<close>

definition dumps_list :: "int list \<Rightarrow> string" where
  "dumps_list xs = ''['' @ join '', '' (map str_int xs) @ '']''"

definition dumps_item :: "string \<times> int list \<Rightarrow> string" where
  "dumps_item kv = [CHR 0x22] @ fst kv @ [CHR 0x22] @ '': '' @ dumps_list (snd kv)"

definition json_dumps :: "(string \<times> int list) list \<Rightarrow> string" where
  "json_dumps d = ''{'' @ join '', '' (map dumps_item d) @ ''}''"

text \<open>
  The decoders. JSON whitespace is space, tab, line feed and carriage return. A number is an
  optional minus sign and digits, with no leading zero; a string runs to the next double quote
  and holds neither a backslash nor a control character (escape sequences are outside the wire
  format and are read as a decode failure here, as are floats and nested values). A decode
  failure (\<^verbatim>\<open>ValueError\<close> of \<^verbatim>\<open>json.loads\<close>) is \<open>None\<close>.
\<close>

definition is_ws :: "char \<Rightarrow> bool" where
  "is_ws c = (c = CHR '' '' \<or> c = CHR 0x09 \<or> c = CHR 0x0A \<or> c = CHR 0x0D)"

definition skip_ws :: "string \<Rightarrow> string" where
  "skip_ws s = dropWhile is_ws s"

definition scan_int :: "string \<Rightarrow> (int \<times> string) option" where
  "scan_int s =
     (let neg = (case s of [] \<Rightarrow> False | c # r \<Rightarrow> c = CHR ''-'');
          r = (if neg then tl s else s);
          ds = takeWhile is_digit r;
          rest = dropWhile is_digit r
      in if ds = [] \<or> (hd ds = CHR ''0'' \<and> 1 < length ds) then None
         else Some (if neg then - int (nat_of_digits ds) else int (nat_of_digits ds), rest))"

definition scan_string :: "string \<Rightarrow> (string \<times> string) option" where
  "scan_string s =
     (case s of
        [] \<Rightarrow> None
      | c # r \<Rightarrow>
          if c = CHR 0x22 then
            (let body = takeWhile (\<lambda>x. x \<noteq> CHR 0x22) r;
                 rest = dropWhile (\<lambda>x. x \<noteq> CHR 0x22) r
             in if rest = [] \<or> list_ex (\<lambda>x. x = CHR 0x5C \<or> (of_char x :: nat) < 32) body
                then None else Some (body, tl rest))
          else None)"

lemma length_skip_ws: "length (skip_ws s) \<le> length s"
  by (simp add: skip_ws_def length_dropWhile_le)

lemma scan_int_shorter: "scan_int s = Some (i, r) \<Longrightarrow> length r < length s"
proof -
  assume a: "scan_int s = Some (i, r)"
  define t where "t = (if (case s of [] \<Rightarrow> False | c # r \<Rightarrow> c = CHR ''-'') then tl s else s)"
  from a have ne: "takeWhile is_digit t \<noteq> []" and r: "r = dropWhile is_digit t"
    by (auto simp: scan_int_def Let_def t_def split: if_splits)
  have "length (takeWhile is_digit t) + length (dropWhile is_digit t) = length t"
    by (metis length_append takeWhile_dropWhile_id)
  with ne have "length (dropWhile is_digit t) < length t"
    by (cases "takeWhile is_digit t") auto
  moreover have "length t \<le> length s"
    by (simp add: t_def)
  ultimately show ?thesis using r by simp
qed

lemma scan_string_shorter: "scan_string s = Some (k, r) \<Longrightarrow> length r < length s"
proof -
  assume a: "scan_string s = Some (k, r)"
  then obtain c t where s: "s = c # t" by (cases s) (auto simp: scan_string_def)
  from a s have "r = tl (dropWhile (\<lambda>x. x \<noteq> CHR 0x22) t)"
    by (auto simp: scan_string_def Let_def split: if_splits)
  moreover have "length (dropWhile (\<lambda>x. x \<noteq> CHR 0x22) t) \<le> length t"
    by (rule length_dropWhile_le)
  ultimately have "length r \<le> length t"
    by simp
  with s show ?thesis by simp
qed

function scan_elems :: "string \<Rightarrow> (int list \<times> string) option" where
  "scan_elems s =
     (case scan_int s of
        None \<Rightarrow> None
      | Some (i, r) \<Rightarrow>
          (case skip_ws r of
             [] \<Rightarrow> None
           | c # r' \<Rightarrow>
               if c = CHR '','' then
                 (case scan_elems (skip_ws r') of
                    None \<Rightarrow> None
                  | Some (is, r'') \<Rightarrow> Some (i # is, r''))
               else if c = CHR '']'' then Some ([i], r')
               else None))"
  by pat_completeness auto
termination
proof (relation "measure length", goal_cases)
  case 1
  show ?case by simp
next
  case (2 s x2 i r c r')
  have "length (skip_ws r') \<le> length r'" by (rule length_skip_ws)
  also have "length r' < length (skip_ws r)" using 2 by simp
  also have "\<dots> \<le> length r" by (rule length_skip_ws)
  also have "\<dots> < length s" using 2 by (auto dest: scan_int_shorter)
  finally show ?case by simp
qed

declare scan_elems.simps [simp del]

definition scan_array :: "string \<Rightarrow> (int list \<times> string) option" where
  "scan_array s =
     (case s of
        [] \<Rightarrow> None
      | c # r \<Rightarrow>
          if c = CHR ''['' then
            (case skip_ws r of
               [] \<Rightarrow> None
             | c' # r' \<Rightarrow> if c' = CHR '']'' then Some ([], r') else scan_elems (skip_ws r))
          else None)"

lemma scan_elems_shorter: "scan_elems s = Some (xs, r) \<Longrightarrow> length r < length s"
proof (induction s arbitrary: xs r rule: scan_elems.induct)
  case (1 s)
  from "1.prems" obtain i r0 where i: "scan_int s = Some (i, r0)"
    by (subst (asm) scan_elems.simps) (auto split: option.splits)
  from "1.prems" i obtain c r' where c: "skip_ws r0 = c # r'"
    by (subst (asm) scan_elems.simps) (auto split: list.splits)
  have l: "length r' < length s"
  proof -
    have "length r' < length (skip_ws r0)" using c by simp
    also have "\<dots> \<le> length r0" by (rule length_skip_ws)
    also have "\<dots> < length s" using i by (rule scan_int_shorter)
    finally show ?thesis .
  qed
  show ?case
  proof (cases "c = CHR '',''")
    case True
    with "1.prems" i c obtain ys where ys: "scan_elems (skip_ws r') = Some (ys, r)"
      by (subst (asm) scan_elems.simps) (auto split: option.splits)
    have "length r < length (skip_ws r')"
      using "1.IH" [OF i refl c True ys] .
    also have "\<dots> \<le> length r'" by (rule length_skip_ws)
    finally show ?thesis using l by simp
  next
    case False
    with "1.prems" i c have "r = r'"
      by (subst (asm) scan_elems.simps) (auto split: if_splits)
    with l show ?thesis by simp
  qed
qed

lemma scan_array_shorter: "scan_array s = Some (xs, r) \<Longrightarrow> length r < length s"
proof -
  assume a: "scan_array s = Some (xs, r)"
  then obtain t where s: "s = CHR ''['' # t"
    by (cases s) (auto simp: scan_array_def split: if_splits)
  from a s obtain c' r' where c: "skip_ws t = c' # r'"
    by (cases "skip_ws t") (auto simp: scan_array_def)
  have le: "length (skip_ws t) \<le> length t" by (rule length_skip_ws)
  show ?thesis
  proof (cases "c' = CHR '']''")
    case True
    with a s c have "r = r'" by (simp add: scan_array_def)
    with c le s show ?thesis by simp
  next
    case False
    with a s c have "scan_elems (skip_ws t) = Some (xs, r)" by (simp add: scan_array_def)
    then have "length r < length (skip_ws t)" by (rule scan_elems_shorter)
    with le s show ?thesis by simp
  qed
qed

function scan_members :: "string \<Rightarrow> ((string \<times> int list) list \<times> string) option" where
  "scan_members s =
     (case scan_string s of
        None \<Rightarrow> None
      | Some (k, r) \<Rightarrow>
          (case skip_ws r of
             [] \<Rightarrow> None
           | c # r1 \<Rightarrow>
               if c = CHR '':'' then
                 (case scan_array (skip_ws r1) of
                    None \<Rightarrow> None
                  | Some (v, r2) \<Rightarrow>
                      (case skip_ws r2 of
                         [] \<Rightarrow> None
                       | c' # r3 \<Rightarrow>
                           if c' = CHR '','' then
                             (case scan_members (skip_ws r3) of
                                None \<Rightarrow> None
                              | Some (kvs, r4) \<Rightarrow> Some ((k, v) # kvs, r4))
                           else if c' = CHR ''}'' then Some ([(k, v)], r3)
                           else None))
               else None))"
  by pat_completeness auto
termination
proof (relation "measure length", goal_cases)
  case 1
  show ?case by simp
next
  case (2 s x2 k r c r1 x2a v r2 c' r3)
  have "length (skip_ws r3) \<le> length r3" by (rule length_skip_ws)
  also have "length r3 < length (skip_ws r2)" using 2 by simp
  also have "\<dots> \<le> length r2" by (rule length_skip_ws)
  also have "\<dots> < length (skip_ws r1)" using 2 by (auto dest: scan_array_shorter)
  also have "\<dots> \<le> length r1" by (rule length_skip_ws)
  also have "\<dots> < length (skip_ws r)" using 2 by simp
  also have "\<dots> \<le> length r" by (rule length_skip_ws)
  also have "\<dots> < length s" using 2 by (auto dest: scan_string_shorter)
  finally show ?case by simp
qed

declare scan_members.simps [simp del]

text \<open>
  \<^verbatim>\<open>json.loads(data)\<close>: one object, nothing but whitespace around it. A key that occurs
  twice keeps its first place and its last value, as a Python dict does.
\<close>

definition json_loads :: "string \<Rightarrow> (string \<times> int list) list option" where
  "json_loads s =
     (case skip_ws s of
        [] \<Rightarrow> None
      | c # r \<Rightarrow>
          if c = CHR ''{'' then
            (case skip_ws r of
               [] \<Rightarrow> None
             | c' # r' \<Rightarrow>
                 if c' = CHR ''}'' then (if skip_ws r' = [] then Some [] else None)
                 else
                   (case scan_members (skip_ws r) of
                      None \<Rightarrow> None
                    | Some (kvs, r'') \<Rightarrow>
                        if skip_ws r'' = [] then Some (dict_of_pairs kvs) else None))
          else None)"

text \<open>
  \<^verbatim>\<open>ast.literal_eval(k)\<close> on the text of a 2-tuple of ints, the form \<^verbatim>\<open>str\<close> writes and
  the server indexes with \<^verbatim>\<open>k[0]\<close> and \<^verbatim>\<open>k[1]\<close>. Any other text is an exception here.
\<close>

definition literal_eval :: "string \<Rightarrow> error + location" where
  "literal_eval s =
     (case skip_ws s of
        [] \<Rightarrow> Inl SyntaxError
      | c # r \<Rightarrow>
          if c = CHR ''('' then
            (case scan_int (skip_ws r) of
               None \<Rightarrow> Inl SyntaxError
             | Some (a, r1) \<Rightarrow>
                 (case skip_ws r1 of
                    [] \<Rightarrow> Inl SyntaxError
                  | c1 # r2 \<Rightarrow>
                      if c1 = CHR '','' then
                        (case scan_int (skip_ws r2) of
                           None \<Rightarrow> Inl SyntaxError
                         | Some (b, r3) \<Rightarrow>
                             (case skip_ws r3 of
                                [] \<Rightarrow> Inl SyntaxError
                              | c2 # r4 \<Rightarrow>
                                  if c2 = CHR '')'' \<and> skip_ws r4 = [] then Inr (a, b)
                                  else Inl SyntaxError))
                      else Inl SyntaxError))
          else Inl SyntaxError)"

section \<open>numpy and matplotlib values\<close>

text \<open>
  \<^verbatim>\<open>np.fromiter(..., dtype=float)\<close> turns the counts into floats. The subtraction, the
  division and the square root of the normalization are modelled on the reals (their rounding
  is left out); the special values of a float division by zero are kept: numpy returns
  \<^verbatim>\<open>nan\<close> for \<^verbatim>\<open>0.0 / 0.0\<close> and an infinity for \<^verbatim>\<open>x / 0.0\<close>, with a warning and no exception.
\<close>

datatype npfloat = Fin real | PInf | NInf | NaN

definition np_div :: "real \<Rightarrow> real \<Rightarrow> npfloat" where
  "np_div x y =
     (if y \<noteq> 0 then Fin (x / y) else if x = 0 then NaN else if 0 < x then PInf else NInf)"

text \<open>The comparison \<^verbatim>\<open>a <= b\<close> of two floats: false when either is \<^verbatim>\<open>nan\<close>.\<close>

fun np_le :: "npfloat \<Rightarrow> npfloat \<Rightarrow> bool" where
  "np_le NaN b = False"
| "np_le a NaN = False"
| "np_le NInf b = True"
| "np_le a PInf = True"
| "np_le (Fin x) (Fin y) = (x \<le> y)"
| "np_le PInf b = False"
| "np_le (Fin x) NInf = False"

text \<open>\<^verbatim>\<open>np.min\<close> and \<^verbatim>\<open>np.max\<close> raise \<^verbatim>\<open>ValueError\<close> on an array of size zero.\<close>

definition np_min :: "real list \<Rightarrow> error + real" where
  "np_min xs = (case xs of [] \<Rightarrow> Inl ValueError | x # r \<Rightarrow> Inr (fold min r x))"

definition np_max :: "real list \<Rightarrow> error + real" where
  "np_max xs = (case xs of [] \<Rightarrow> Inl ValueError | x # r \<Rightarrow> Inr (fold max r x))"

text \<open>
  A matplotlib colormap is called with an int (an index into its table) or with a float (a
  position in [0, 1], or \<^verbatim>\<open>nan\<close>) and returns an RGBA tuple of floats; a float is given by
  the real number it is.
\<close>

datatype cmap_arg = IntArg int | FloatArg npfloat

type_synonym colormap = "cmap_arg \<Rightarrow> real list"

text \<open>
  What the programs take from Python and its libraries, and the repository does not contain,
  is a parameter \<open>lib\<close> of the functions that use it:
  \<^item> \<open>get_cmap\<close> is \<^verbatim>\<open>plt.cm.get_cmap\<close>, the colormaps of matplotlib by name;
  \<^item> \<open>float_mul x y\<close> is the product \<^verbatim>\<open>x * y\<close> of two floats, rounded as the machine rounds it
    (the exact product of the reals \<open>x\<close> and \<open>y\<close> need not be a float);
  \<^item> \<open>unicode_lower\<close> is \<^verbatim>\<open>str.lower()\<close> on a string that holds a character outside ASCII.
  Every theorem below holds for every \<open>lib\<close>, so for the real one.
\<close>

record library =
  get_cmap :: "string \<Rightarrow> colormap"
  float_mul :: "real \<Rightarrow> real \<Rightarrow> real"
  unicode_lower :: "string \<Rightarrow> string"

text \<open>\<^verbatim>\<open>int(x)\<close> of a float truncates towards zero.\<close>

definition py_int :: "real \<Rightarrow> int" where
  "py_int x = (if 0 \<le> x then \<lfloor>x\<rfloor> else \<lceil>x\<rceil>)"

text \<open>\<^verbatim>\<open>[int(v * 255) for v in rgba[0:3]]\<close> (lines 58-59 and 89-90).\<close>

definition rgb_of :: "library \<Rightarrow> real list \<Rightarrow> rgb" where
  "rgb_of lib rgba = map (\<lambda>v. py_int (float_mul lib v 255)) (take 3 rgba)"

definition COLOR_MAPS :: "string list" where
  "COLOR_MAPS = [''jet'', ''turbo'', ''hot'', ''bwr'', ''seismic'', ''Spectral'', ''gnuplot'',
     ''brg'', ''gist_rainbow'', ''rainbow'']"

text \<open>\<^verbatim>\<open>xs.index(x)\<close>: the first position of \<open>x\<close>, \<^verbatim>\<open>ValueError\<close> when there is none.\<close>

fun list_index :: "'a list \<Rightarrow> 'a \<Rightarrow> error + int" where
  "list_index [] x = Inl ValueError"
| "list_index (y # ys) x =
     (if y = x then Inr 0 else and_then (list_index ys x) (\<lambda>i. Inr (i + 1)))"

text \<open>\<^verbatim>\<open>xs[i]\<close>: a negative index counts from the end, \<^verbatim>\<open>IndexError\<close> out of range.\<close>

definition list_item :: "'a list \<Rightarrow> int \<Rightarrow> error + 'a" where
  "list_item xs i =
     (if 0 \<le> i \<and> i < int (length xs) then Inr (xs ! nat i)
      else if i < 0 \<and> - int (length xs) \<le> i then Inr (xs ! nat (int (length xs) + i))
      else Inl IndexError)"

text \<open>
  \<^verbatim>\<open>str.lower()\<close>: on a string of ASCII characters it lowers the letters A to Z and leaves the
  rest; on any other string it is the library's. A string is the list of the bytes of its UTF-8
  form. \<^verbatim>\<open>s.startswith("Key")\<close>.
\<close>

definition lower_char :: "char \<Rightarrow> char" where
  "lower_char c =
     (case map_of (zip ''ABCDEFGHIJKLMNOPQRSTUVWXYZ'' ''abcdefghijklmnopqrstuvwxyz'') c of
        None \<Rightarrow> c
      | Some l \<Rightarrow> l)"

definition is_ascii :: "char \<Rightarrow> bool" where
  "is_ascii c = ((of_char c :: nat) < 128)"

definition lower :: "library \<Rightarrow> string \<Rightarrow> string" where
  "lower lib s = (if list_all is_ascii s then map lower_char s else unicode_lower lib s)"

definition startswith :: "string \<Rightarrow> string \<Rightarrow> bool" where
  "startswith s p = (take (length p) s = p)"

section \<open>The engine: class \<^verbatim>\<open>HeatMapper\<close> of \<^verbatim>\<open>heatmap.py\<close>\<close>

text \<open>
  The socket of the client: \<open>wire\<close> is what \<^verbatim>\<open>sendall\<close> has delivered so far, one entry per
  call; \<open>alive\<close> is false once the peer is gone (set by the environment, never by the
  engine), and then \<^verbatim>\<open>sendall\<close> raises \<^verbatim>\<open>socket.error\<close>.
\<close>

record sock =
  alive :: bool
  wire :: "string list"

definition sendall :: "sock \<Rightarrow> string \<Rightarrow> error + sock" where
  "sendall c data = (if alive c then Inr (c\<lparr>wire := wire c @ [data]\<rparr>) else Inl SocketError)"

text \<open>
  The fields of a \<^verbatim>\<open>HeatMapper\<close>. Counts are only ever set to 0 or incremented: they are
  naturals. \<open>error_log\<close> holds the messages of \<^verbatim>\<open>logging.error\<close>; the \<^verbatim>\<open>print\<close> output of debug mode
  is not modelled.
\<close>

record heat_mapper =
  debug_mode :: bool
  key_to_location_map :: "(string \<times> location list) list"
  color_map_name :: string
  color_map :: colormap
  color_map_index :: int
  refresh_interval :: real
  enhance_lowkeys :: bool
  change_heatmap_on_refresh :: bool
  sock :: sock
  start_time :: real
  elapsed_time :: real
  location_to_color :: "(location \<times> rgb) list"
  location_to_count :: "(location \<times> nat) list"
  key_name_to_count :: "(string \<times> nat) list"
  error_log :: "string list"

text \<open>
  \<^verbatim>\<open>__init_color_map\<close> (lines 57-64): the two nested loops visit the locations of every key in
  the order of the layout. Every location gets the one list \<^verbatim>\<open>base_color\<close>; no code changes a
  colour list in place, so the sharing cannot be observed.
\<close>

definition init_color_map :: "library \<Rightarrow> heat_mapper \<Rightarrow> heat_mapper" where
  "init_color_map lib s =
     (let base_color = rgb_of lib (color_map s (IntArg 0)) in
      foldl (\<lambda>s location.
               s\<lparr>location_to_count := dict_set (location_to_count s) location 0,
                 location_to_color := dict_set (location_to_color s) location base_color\<rparr>)
        s (concat (map snd (key_to_location_map s))))"

text \<open>
  \<^verbatim>\<open>__send_colors_to_server\<close> (lines 67-73). The dict comprehension keys every colour by
  \<^verbatim>\<open>str(k)\<close>; \<^verbatim>\<open>k is not None\<close> holds for every tuple.
\<close>

definition serialized_dict :: "(location \<times> rgb) list \<Rightarrow> string" where
  "serialized_dict colors =
     json_dumps (dict_of_pairs (map (\<lambda>(k, v). (str_tuple k, v)) colors))"

definition send_colors_to_server :: "heat_mapper \<Rightarrow> heat_mapper" where
  "send_colors_to_server s =
     (case sendall (sock s) (serialized_dict (location_to_color s)) of
        Inr c \<Rightarrow> s\<lparr>sock := c\<rparr>
      | Inl exc \<Rightarrow> s\<lparr>error_log := error_log s @ [''Caught exception when sending data socket.error'']\<rparr>)"

text \<open>
  \<^verbatim>\<open>__update_color_map\<close> (lines 76-93). \<open>normalized_counts\<close> is the array
  \<^verbatim>\<open>location_counts_np\<close> after line 82, in the order of \<^verbatim>\<open>location_to_count.values()\<close>.
\<close>

definition normalized_counts :: "heat_mapper \<Rightarrow> error + npfloat list" where
  "normalized_counts s =
     (let counts = map (\<lambda>(location, count). real count) (location_to_count s);
          counts = (if enhance_lowkeys s then map sqrt counts else counts)
      in and_then (np_min counts) (\<lambda>lo.
         and_then (np_max counts) (\<lambda>hi.
         Inr (map (\<lambda>c. np_div (c - lo) hi) counts))))"

definition update_color_map :: "library \<Rightarrow> heat_mapper \<Rightarrow> error + heat_mapper" where
  "update_color_map lib s =
     and_then (normalized_counts s) (\<lambda>normalized.
       Inr (foldl (\<lambda>s (location, normalized_count).
                     s\<lparr>location_to_color :=
                         dict_set (location_to_color s) location
                           (rgb_of lib (color_map s (FloatArg normalized_count)))\<rparr>)
              s (zip (map fst (location_to_count s)) normalized)))"

text \<open>\<^verbatim>\<open>__select_next_colormap\<close> (lines 95-101).\<close>

definition select_next_colormap :: "library \<Rightarrow> heat_mapper \<Rightarrow> error + heat_mapper" where
  "select_next_colormap lib s =
     (let i = (if color_map_index s = int (length COLOR_MAPS) - 1 then 0
               else color_map_index s + 1)
      in and_then (list_item COLOR_MAPS i) (\<lambda>name.
           Inr (s\<lparr>color_map_index := i, color_map_name := name, color_map := get_cmap lib name\<rparr>)))"

text \<open>
  \<^verbatim>\<open>on_key_release\<close> (lines 103-142), in three parts. \<open>key\<close> is \<^verbatim>\<open>str(key)\<close> of the pynput key;
  \<open>now\<close> and \<open>now'\<close> are the readings of \<^verbatim>\<open>time.time()\<close> at lines 104 and 109.

  Lines 106-109, the body of the refresh test:
\<close>

definition refresh :: "library \<Rightarrow> heat_mapper \<Rightarrow> real \<Rightarrow> error + heat_mapper" where
  "refresh lib s now' =
     and_then (if change_heatmap_on_refresh s then select_next_colormap lib s else Inr s)
       (\<lambda>s. Inr ((init_color_map lib s)\<lparr>start_time := now'\<rparr>))"

text \<open>Lines 123-124: \<^verbatim>\<open>for loc in locations: self.location_to_count[loc] += 1\<close>.\<close>

fun count_locations :: "(location \<times> nat) list \<Rightarrow> location list \<Rightarrow> error + (location \<times> nat) list" where
  "count_locations d [] = Inr d"
| "count_locations d (loc # locations) =
     and_then (dict_incr d loc) (\<lambda>d. count_locations d locations)"

text \<open>Lines 126-139, the keys of debug mode (F7 only prints).\<close>

definition debug_keys :: "library \<Rightarrow> heat_mapper \<Rightarrow> string \<Rightarrow> error + heat_mapper" where
  "debug_keys lib s str_key =
     (if debug_mode s then
        and_then (if str_key = ''Key.f2'' then select_next_colormap lib s else Inr s)
          (\<lambda>s. Inr (if str_key = ''Key.f3'' then s\<lparr>enhance_lowkeys := \<not> enhance_lowkeys s\<rparr> else s))
      else Inr s)"

text \<open>Lines 111-114: \<^verbatim>\<open>str_key\<close>, the name the key is looked up by.\<close>

definition key_name :: "library \<Rightarrow> string \<Rightarrow> string" where
  "key_name lib key = (if \<not> startswith key ''Key'' then lower lib key else key)"

text \<open>Lines 115-142: the key is looked up, counted, and the colours are recomputed and sent.\<close>

definition record_key :: "library \<Rightarrow> heat_mapper \<Rightarrow> string \<Rightarrow> error + heat_mapper" where
  "record_key lib s key =
     (let str_key = key_name lib key in
      case dict_get (key_to_location_map s) str_key of
        None \<Rightarrow> Inr s
      | Some locations \<Rightarrow>
          and_then (dict_incr (key_name_to_count s) str_key) (\<lambda>names.
          and_then (count_locations (location_to_count s) locations) (\<lambda>counts.
          and_then (debug_keys lib
                      (s\<lparr>key_name_to_count := names, location_to_count := counts\<rparr>) str_key) (\<lambda>s.
          and_then (update_color_map lib s) (\<lambda>s.
          Inr (send_colors_to_server s))))))"

definition on_key_release ::
  "library \<Rightarrow> heat_mapper \<Rightarrow> string \<Rightarrow> real \<Rightarrow> real \<Rightarrow> error + heat_mapper" where
  "on_key_release lib s key now now' =
     (let s = s\<lparr>elapsed_time := now - start_time s\<rparr> in
      and_then (if elapsed_time s > refresh_interval s then refresh lib s now' else Inr s)
        (\<lambda>s. record_key lib s key))"

text \<open>
  \<^verbatim>\<open>__init__\<close> (lines 19-54). \<open>keyboard_json\<close> is the layout as \<^verbatim>\<open>json.load\<close> returned it,
  its \<^verbatim>\<open>[row, col]\<close> lists already turned into tuples (lines 26-30). \<^verbatim>\<open>COLOR_MAPS.index\<close>
  raises \<^verbatim>\<open>ValueError\<close> on a name outside the registry; \<^verbatim>\<open>sock.connect\<close> raises when no
  server listens (\<open>listening\<close>). \<open>t0\<close> and \<open>t1\<close> are the two readings of \<^verbatim>\<open>time.time()\<close> at
  lines 43 and 44.
\<close>

definition init ::
  "library \<Rightarrow> (string \<times> location list) list \<Rightarrow> string \<Rightarrow> real \<Rightarrow> bool \<Rightarrow> bool \<Rightarrow>
     bool \<Rightarrow> bool \<Rightarrow> real \<Rightarrow> real \<Rightarrow> error + heat_mapper" where
  "init lib keyboard_json color_map_arg refresh_interval_secs enhance change debug
      listening t0 t1 =
     and_then (list_index COLOR_MAPS color_map_arg) (\<lambda>i.
       if \<not> listening then Inl ConnectionRefusedError
       else Inr (send_colors_to_server (init_color_map lib
         \<lparr>debug_mode = debug,
          key_to_location_map = keyboard_json,
          color_map_name = color_map_arg,
          color_map = get_cmap lib color_map_arg,
          color_map_index = i,
          refresh_interval = refresh_interval_secs,
          enhance_lowkeys = enhance,
          change_heatmap_on_refresh = change,
          sock = \<lparr>alive = True, wire = []\<rparr>,
          start_time = t0,
          elapsed_time = t1 - t0,
          location_to_color = [],
          location_to_count = [],
          key_name_to_count = dict_of_pairs (map (\<lambda>(k, locations). (k, 0)) keyboard_json),
          error_log = []\<rparr>)))"

section \<open>The server: \<^verbatim>\<open>HeatMapServer.start_listening\<close> of \<^verbatim>\<open>heatmap_server.py\<close>\<close>

text \<open>
  The lighting device is outside the repository. \<open>matrix\<close> is what
  \<^verbatim>\<open>device.fx.advanced.matrix[row, col] = tuple(v)\<close> has stored; \<open>frames\<close> gets a copy of the
  matrix at every \<^verbatim>\<open>draw()\<close>.
\<close>

record device =
  matrix :: "(location \<times> int list) list"
  frames :: "(location \<times> int list) list list"

text \<open>
  The state of the read loop: the local \<^verbatim>\<open>color_map_str\<close> (\<open>None\<close> while no assignment
  has bound it), the device, and the messages of \<^verbatim>\<open>logging.error\<close> (the \<^verbatim>\<open>logging.info\<close>
  lines are not modelled).
\<close>

record server =
  color_map_str :: "(string \<times> int list) list option"
  device :: device
  errors :: "string list"

text \<open>
  Lines 53-55: \<^verbatim>\<open>color_map[ast.literal_eval(k)] = v\<close> for every item (the local
  \<^verbatim>\<open>color_map\<close> is \<open>color_map'\<close> here).
\<close>

fun eval_keys ::
  "(location \<times> int list) list \<Rightarrow> (string \<times> int list) list \<Rightarrow> error + (location \<times> int list) list" where
  "eval_keys color_map' [] = Inr color_map'"
| "eval_keys color_map' ((k, v) # items) =
     and_then (literal_eval k) (\<lambda>loc. eval_keys (dict_set color_map' loc v) items)"

text \<open>Lines 56-59: every item is written to the matrix.\<close>

definition set_matrix :: "device \<Rightarrow> (location \<times> int list) list \<Rightarrow> device" where
  "set_matrix d color_map' =
     foldl (\<lambda>d (k, v). d\<lparr>matrix := dict_set (matrix d) (fst k, snd k) v\<rparr>) d color_map'"

text \<open>\<^verbatim>\<open>__update_device\<close> (lines 32-33).\<close>

definition update_device :: "device \<Rightarrow> device" where
  "update_device d = d\<lparr>frames := frames d @ [matrix d]\<rparr>"

text \<open>
  Lines 48-60, one pass of the loop on a chunk that is not empty. The \<^verbatim>\<open>except\<close> branch logs
  and falls through to line 53: there is no \<^verbatim>\<open>continue\<close>. Reading \<^verbatim>\<open>color_map_str\<close> at
  line 54 while it is unbound raises \<^verbatim>\<open>UnboundLocalError\<close>.
\<close>

definition handle_chunk :: "server \<Rightarrow> string \<Rightarrow> error + server" where
  "handle_chunk st data =
     (let st = (case json_loads data of
                  Some d \<Rightarrow> st\<lparr>color_map_str := Some d\<rparr>
                | None \<Rightarrow> st\<lparr>errors := errors st @ [''Error decoding JSON...'']\<rparr>)
      in case color_map_str st of
           None \<Rightarrow> Inl UnboundLocalError
         | Some items \<Rightarrow>
             and_then (eval_keys [] items) (\<lambda>color_map'.
               Inr (st\<lparr>device := update_device (set_matrix (device st) color_map')\<rparr>)))"

text \<open>
  Lines 42-60. The argument is the sequence of results of \<^verbatim>\<open>conn.recv(4096)\<close>; an empty
  chunk, or the end of the sequence, is the peer's disconnect and ends the loop.
\<close>

fun start_listening :: "server \<Rightarrow> string list \<Rightarrow> error + server" where
  "start_listening st [] = Inr st"
| "start_listening st (data # chunks) =
     (if data = [] then Inr st
      else and_then (handle_chunk st data) (\<lambda>st. start_listening st chunks))"

definition new_server :: server where
  "new_server = \<lparr>color_map_str = None, device = \<lparr>matrix = [], frames = []\<rparr>, errors = []\<rparr>"

text \<open>
  \<^verbatim>\<open>__select_next_colormap\<close> called \<open>n\<close> times in a row.
\<close>

fun select_next_colormap_times ::
  "library \<Rightarrow> nat \<Rightarrow> heat_mapper \<Rightarrow> error + heat_mapper" where
  "select_next_colormap_times lib 0 s = Inr s"
| "select_next_colormap_times lib (Suc n) s =
     and_then (select_next_colormap lib s) (select_next_colormap_times lib n)"

text \<open>
  A key that \<^verbatim>\<open>json.dumps\<close> writes without an escape: no double quote, no backslash, no
  control character.
\<close>

definition key_ok :: "string \<Rightarrow> bool" where
  "key_ok k = (\<not> list_ex (\<lambda>x. x = CHR 0x22 \<or> x = CHR 0x5C \<or> (of_char x :: nat) < 32) k)"

text \<open>
  What holds of every engine that \<^verbatim>\<open>__init__\<close> builds and \<^verbatim>\<open>on_key_release\<close> leaves (lemmas
  \<open>init_engine_ok\<close> and \<open>on_key_release_engine_ok\<close> below): the palette cursor is inside the
  registry and points at the active palette's name, and the two dicts keyed by location hold
  locations of the layout only.
\<close>

definition engine_ok :: "heat_mapper \<Rightarrow> bool" where
  "engine_ok s =
     (0 \<le> color_map_index s \<and> color_map_index s < int (length COLOR_MAPS)
      \<and> color_map_name s = COLOR_MAPS ! nat (color_map_index s)
      \<and> fst ` set (location_to_count s) \<subseteq> set (concat (map snd (key_to_location_map s)))
      \<and> fst ` set (location_to_color s) \<subseteq> set (concat (map snd (key_to_location_map s))))"

section \<open>Inputs of the examples\<close>

text \<open>
  A library for the closed examples. Its palette is a grey ramp, black at 0 and white at 1,
  with the table index scaled for an int argument and matplotlib's default ``bad'' colour for
  \<^verbatim>\<open>nan\<close>. Its product is the exact one, which is the machine's wherever the exact product is
  a float, as for \<^verbatim>\<open>0.0 * 255\<close> and \<^verbatim>\<open>1.0 * 255\<close>. The keys of the examples are ASCII, so
  \<open>unicode_lower\<close> is never called.
\<close>

definition demo_cmap :: "string \<Rightarrow> colormap" where
  "demo_cmap name x =
     (case x of
        IntArg i \<Rightarrow> [real_of_int i / 255, real_of_int i / 255, real_of_int i / 255, 1]
      | FloatArg (Fin v) \<Rightarrow> [v, v, v, 1]
      | FloatArg _ \<Rightarrow> [0, 0, 0, 0])"

definition demo_lib :: library where
  "demo_lib = \<lparr>get_cmap = demo_cmap, float_mul = (\<lambda>x y. x * y), unicode_lower = (\<lambda>s. s)\<rparr>"

text \<open>The layout \<^verbatim>\<open>{"a": [[0,0]], "b": [[0,1]]}\<close>, and one whose key \<^verbatim>\<open>a\<close> lights no cell.\<close>

definition layout_ab :: "(string \<times> location list) list" where
  "layout_ab = [(''a'', [(0, 0)]), (''b'', [(0, 1)])]"

definition layout_a_empty :: "(string \<times> location list) list" where
  "layout_a_empty = [(''a'', []), (''b'', [(0, 0)])]"

text \<open>
  The engine right after \<^verbatim>\<open>HeatMapper(layout, 'hot', 3600)\<close> at time 0 with the demo
  library (lemma \<open>init_fresh_engine\<close> below), and the engine it becomes by three releases of
  \<^verbatim>\<open>a\<close> at the times 1, 2 and 3 (lemma \<open>pressed_engine_reached\<close>): four messages sent, the key
  \<^verbatim>\<open>a\<close> counted three times.
\<close>

definition fresh_engine :: heat_mapper where
  "fresh_engine =
     \<lparr>debug_mode = False,
      key_to_location_map = layout_ab,
      color_map_name = ''hot'',
      color_map = demo_cmap ''hot'',
      color_map_index = 2,
      refresh_interval = 3600,
      enhance_lowkeys = False,
      change_heatmap_on_refresh = False,
      sock = \<lparr>alive = True, wire = [serialized_dict [((0, 0), [0, 0, 0]), ((0, 1), [0, 0, 0])]]\<rparr>,
      start_time = 0,
      elapsed_time = 0,
      location_to_color = [((0, 0), [0, 0, 0]), ((0, 1), [0, 0, 0])],
      location_to_count = [((0, 0), 0), ((0, 1), 0)],
      key_name_to_count = [(''a'', 0), (''b'', 0)],
      error_log = []\<rparr>"

definition pressed_engine :: heat_mapper where
  "pressed_engine =
     \<lparr>debug_mode = False,
      key_to_location_map = layout_ab,
      color_map_name = ''hot'',
      color_map = demo_cmap ''hot'',
      color_map_index = 2,
      refresh_interval = 3600,
      enhance_lowkeys = False,
      change_heatmap_on_refresh = False,
      sock = \<lparr>alive = True,
              wire = [serialized_dict [((0, 0), [0, 0, 0]), ((0, 1), [0, 0, 0])],
                      serialized_dict [((0, 0), [255, 255, 255]), ((0, 1), [0, 0, 0])],
                      serialized_dict [((0, 0), [255, 255, 255]), ((0, 1), [0, 0, 0])],
                      serialized_dict [((0, 0), [255, 255, 255]), ((0, 1), [0, 0, 0])]]\<rparr>,
      start_time = 0,
      elapsed_time = 3,
      location_to_color = [((0, 0), [255, 255, 255]), ((0, 1), [0, 0, 0])],
      location_to_count = [((0, 0), 3), ((0, 1), 0)],
      key_name_to_count = [(''a'', 3), (''b'', 0)],
      error_log = []\<rparr>"

section \<open>Decimal numbers and the scanners\<close>

lemma lt10_cases: "n < (10::nat) \<Longrightarrow> n \<in> {0, 1, 2, 3, 4, 5, 6, 7, 8, 9}"
  by auto

lemma digit_char_is_digit: "n < 10 \<Longrightarrow> is_digit (digit_char n)"
  by (drule lt10_cases) (auto simp: digit_char_def is_digit_def)

lemma digit_val_digit_char: "n < 10 \<Longrightarrow> digit_val (digit_char n) = n"
  by (drule lt10_cases) (auto simp: digit_char_def digit_val_def)

lemma digit_char_zero: "n < 10 \<Longrightarrow> digit_char n = CHR ''0'' \<Longrightarrow> n = 0"
  by (drule lt10_cases) (auto simp: digit_char_def)

lemma str_nat_digits: "\<forall>c\<in>set (str_nat n). is_digit c"
proof (induction n rule: str_nat.induct)
  case (1 n)
  show ?case
  proof (cases "n < 10")
    case True
    then show ?thesis by (subst str_nat.simps) (simp add: digit_char_is_digit)
  next
    case False
    with 1 show ?thesis by (subst str_nat.simps) (simp add: digit_char_is_digit)
  qed
qed

lemma str_nat_nonempty: "str_nat n \<noteq> []"
  by (subst str_nat.simps) simp

lemma nat_of_digits_snoc: "nat_of_digits (xs @ [c]) = 10 * nat_of_digits xs + digit_val c"
  by (simp add: nat_of_digits_def)

lemma nat_of_digits_str_nat: "nat_of_digits (str_nat n) = n"
proof (induction n rule: str_nat.induct)
  case (1 n)
  show ?case
  proof (cases "n < 10")
    case True
    then show ?thesis
      by (subst str_nat.simps) (simp add: nat_of_digits_def digit_val_digit_char)
  next
    case False
    with 1 show ?thesis
      by (subst str_nat.simps) (simp add: nat_of_digits_snoc digit_val_digit_char)
  qed
qed

lemma hd_str_nat_zero: "hd (str_nat n) = CHR ''0'' \<Longrightarrow> n = 0"
proof (induction n rule: str_nat.induct)
  case (1 n)
  show ?case
  proof (cases "n < 10")
    case True
    with "1.prems" show ?thesis
      by (subst (asm) str_nat.simps) (simp add: digit_char_zero)
  next
    case False
    with "1.prems" have "hd (str_nat (n div 10)) = CHR ''0''"
      by (subst (asm) str_nat.simps) (simp add: str_nat_nonempty)
    with 1 False have "n div 10 = 0" by simp
    with False show ?thesis by simp
  qed
qed

lemma str_nat_zero: "str_nat 0 = ''0''"
  by (subst str_nat.simps) (simp add: digit_char_def)

lemma takeWhile_all_append:
  "\<forall>x\<in>set xs. P x \<Longrightarrow> rest = [] \<or> \<not> P (hd rest) \<Longrightarrow> takeWhile P (xs @ rest) = xs"
  by (induction xs) (auto simp: takeWhile_eq_Nil_iff neq_Nil_conv)

lemma dropWhile_all_append:
  "\<forall>x\<in>set xs. P x \<Longrightarrow> rest = [] \<or> \<not> P (hd rest) \<Longrightarrow> dropWhile P (xs @ rest) = rest"
  by (induction xs) (auto simp: dropWhile_eq_self_iff neq_Nil_conv)

lemma scan_digits:
  assumes "rest = [] \<or> \<not> is_digit (hd rest)"
  shows "takeWhile is_digit (str_nat n @ rest) = str_nat n"
    and "dropWhile is_digit (str_nat n @ rest) = rest"
  by (rule takeWhile_all_append [OF str_nat_digits assms],
      rule dropWhile_all_append [OF str_nat_digits assms])

lemma str_nat_hd_digit: "is_digit (hd (str_nat n))"
  using str_nat_digits [of n] str_nat_nonempty [of n] by (cases "str_nat n") auto

lemma str_nat_no_leading_zero: "\<not> (hd (str_nat n) = CHR ''0'' \<and> 1 < length (str_nat n))"
proof
  assume a: "hd (str_nat n) = CHR ''0'' \<and> 1 < length (str_nat n)"
  then have "n = 0" by (simp add: hd_str_nat_zero)
  with a show False by (simp add: str_nat_zero)
qed

lemma str_nat_not_minus:
  "(case str_nat n @ rest of [] \<Rightarrow> False | c # r \<Rightarrow> c = CHR ''-'') = False"
proof -
  obtain c cs where s: "str_nat n = c # cs"
    using str_nat_nonempty [of n] by (cases "str_nat n") auto
  with str_nat_hd_digit [of n] have "c \<noteq> CHR ''-''"
    by (auto simp: is_digit_def)
  with s show ?thesis by simp
qed

lemma scan_int_str_int:
  assumes "rest = [] \<or> \<not> is_digit (hd rest)"
  shows "scan_int (str_int i @ rest) = Some (i, rest)"
proof (cases "i < 0")
  case True
  then show ?thesis
    using str_nat_no_leading_zero [of "nat (- i)"]
    by (simp add: scan_int_def str_int_def Let_def scan_digits [OF assms]
        str_nat_nonempty nat_of_digits_str_nat)
next
  case False
  then show ?thesis
    using str_nat_no_leading_zero [of "nat i"]
    by (simp add: scan_int_def str_int_def Let_def scan_digits [OF assms]
        str_nat_nonempty nat_of_digits_str_nat str_nat_not_minus)
qed

lemma str_int_hd:
  "\<exists>c cs. str_int i = c # cs \<and> (is_digit c \<or> c = CHR ''-'')"
  using str_nat_hd_digit [of "nat i"] str_nat_nonempty [of "nat i"]
  by (cases "str_nat (nat i)") (auto simp: str_int_def)

lemma skip_ws_str_int: "skip_ws (str_int i @ r) = str_int i @ r"
  using str_int_hd [of i] by (auto simp: skip_ws_def is_ws_def is_digit_def)

lemma str_int_chars: "\<forall>c\<in>set (str_int i). is_digit c \<or> c = CHR ''-''"
  using str_nat_digits [of "nat i"] str_nat_digits [of "nat (- i)"]
  by (simp add: str_int_def)

lemma skip_ws_Nil: "skip_ws [] = []"
  by (simp add: skip_ws_def)

lemma skip_ws_space: "skip_ws (CHR '' '' # r) = skip_ws r"
  by (simp add: skip_ws_def is_ws_def)

lemma skip_ws_punct:
  "skip_ws (CHR '','' # r) = CHR '','' # r"
  "skip_ws (CHR '']'' # r) = CHR '']'' # r"
  "skip_ws (CHR ''['' # r) = CHR ''['' # r"
  "skip_ws (CHR ''{'' # r) = CHR ''{'' # r"
  "skip_ws (CHR ''}'' # r) = CHR ''}'' # r"
  "skip_ws (CHR ''('' # r) = CHR ''('' # r"
  "skip_ws (CHR '')'' # r) = CHR '')'' # r"
  "skip_ws (CHR '':'' # r) = CHR '':'' # r"
  "skip_ws (CHR 0x22 # r) = CHR 0x22 # r"
  by (simp_all add: skip_ws_def is_ws_def)

lemma join_Cons: "join sep (x # xs) = x @ (if xs = [] then [] else sep @ join sep xs)"
  by (cases xs) simp_all

lemma scan_elems_join:
  "scan_elems (join '', '' (map str_int (x # xs)) @ CHR '']'' # rest) = Some (x # xs, rest)"
proof (induction xs arbitrary: x)
  case Nil
  have "scan_int (str_int x @ CHR '']'' # rest) = Some (x, CHR '']'' # rest)"
    by (rule scan_int_str_int) (simp add: is_digit_def)
  then show ?case
    by (subst scan_elems.simps) (simp add: skip_ws_punct)
next
  case (Cons y ys)
  define J where "J = join '', '' (map str_int (y # ys)) @ CHR '']'' # rest"
  have e: "join '', '' (map str_int (x # y # ys)) @ CHR '']'' # rest
             = str_int x @ CHR '','' # CHR '' '' # J"
    by (simp add: J_def)
  have si: "scan_int (str_int x @ CHR '','' # CHR '' '' # J) = Some (x, CHR '','' # CHR '' '' # J)"
    by (rule scan_int_str_int) (simp add: is_digit_def)
  obtain t where "J = str_int y @ t"
    by (simp add: J_def join_Cons)
  then have sk: "skip_ws (CHR '' '' # J) = J"
    by (simp add: skip_ws_space skip_ws_str_int)
  have ih: "scan_elems J = Some (y # ys, rest)"
    unfolding J_def by (rule Cons.IH)
  show ?case
    unfolding e by (subst scan_elems.simps) (simp add: si sk ih skip_ws_punct)
qed

lemma scan_array_dumps_list: "scan_array (dumps_list xs @ rest) = Some (xs, rest)"
proof (cases xs)
  case Nil
  then show ?thesis
    by (simp add: scan_array_def dumps_list_def skip_ws_punct)
next
  case (Cons x ys)
  define J where "J = join '', '' (map str_int (x # ys)) @ CHR '']'' # rest"
  obtain c cs where c: "str_int x = c # cs" "is_digit c \<or> c = CHR ''-''"
    using str_int_hd [of x] by blast
  obtain t where t: "J = str_int x @ t"
    by (simp add: J_def join_Cons)
  have sk: "skip_ws J = J"
    unfolding t by (rule skip_ws_str_int)
  from c have ne: "c \<noteq> CHR '']''"
    by (auto simp: is_digit_def)
  have hd: "J = c # cs @ t"
    using t c by simp
  have el: "scan_elems J = Some (x # ys, rest)"
    unfolding J_def by (rule scan_elems_join)
  have "scan_array (CHR ''['' # J) = Some (x # ys, rest)"
    using ne el sk by (simp add: scan_array_def hd)
  then show ?thesis
    by (simp add: Cons dumps_list_def J_def)
qed

lemma scan_string_quoted:
  assumes "key_ok k"
  shows "scan_string (CHR 0x22 # k @ CHR 0x22 # rest) = Some (k, rest)"
proof -
  have q: "\<forall>x\<in>set k. x \<noteq> CHR 0x22"
    using assms by (auto simp: key_ok_def list_ex_iff)
  have tw: "takeWhile (\<lambda>x. x \<noteq> CHR 0x22) (k @ CHR 0x22 # rest) = k"
    by (rule takeWhile_all_append [OF q]) simp
  have dw: "dropWhile (\<lambda>x. x \<noteq> CHR 0x22) (k @ CHR 0x22 # rest) = CHR 0x22 # rest"
    by (rule dropWhile_all_append [OF q]) simp
  have b: "\<not> list_ex (\<lambda>x. x = CHR 0x5C \<or> (of_char x :: nat) < 32) k"
    using assms by (auto simp: key_ok_def list_ex_iff)
  show ?thesis
    by (simp add: scan_string_def tw dw b Let_def)
qed

lemma digit_key_ok: "is_digit c \<Longrightarrow> c \<noteq> CHR 0x22 \<and> c \<noteq> CHR 0x5C \<and> \<not> (of_char c :: nat) < 32"
  by (auto simp: is_digit_def)

lemma key_ok_str_int: "\<forall>c\<in>set (str_int i). c \<noteq> CHR 0x22 \<and> c \<noteq> CHR 0x5C \<and> \<not> (of_char c :: nat) < 32"
proof
  fix c assume "c \<in> set (str_int i)"
  then have "is_digit c \<or> c = CHR ''-''" using str_int_chars by blast
  then show "c \<noteq> CHR 0x22 \<and> c \<noteq> CHR 0x5C \<and> \<not> (of_char c :: nat) < 32"
  proof
    assume "is_digit c" then show ?thesis by (rule digit_key_ok)
  next
    assume "c = CHR ''-''" then show ?thesis by simp
  qed
qed

lemma key_ok_str_tuple: "key_ok (str_tuple k)"
  using key_ok_str_int [of "fst k"] key_ok_str_int [of "snd k"]
  by (auto simp: key_ok_def str_tuple_def list_ex_iff)

lemma dumps_list_hd: "dumps_list v @ r = CHR ''['' # (join '', '' (map str_int v) @ CHR '']'' # r)"
  by (simp add: dumps_list_def)

lemma dumps_item_eq:
  "dumps_item (k, v) @ r = CHR 0x22 # k @ CHR 0x22 # CHR '':'' # CHR '' '' # dumps_list v @ r"
  by (simp add: dumps_item_def)

lemma skip_ws_dumps_list: "skip_ws (CHR '' '' # dumps_list v @ r) = dumps_list v @ r"
  by (simp add: skip_ws_space dumps_list_hd skip_ws_punct)

lemma scan_members_join:
  "\<forall>kv\<in>set (kv0 # kvs). key_ok (fst kv) \<Longrightarrow>
   scan_members (join '', '' (map dumps_item (kv0 # kvs)) @ CHR ''}'' # rest)
     = Some (kv0 # kvs, rest)"
proof (induction kvs arbitrary: kv0)
  case Nil
  obtain k v where kv: "kv0 = (k, v)" by (cases kv0)
  with Nil have ok: "key_ok k" by simp
  define R where "R = CHR ''}'' # rest"
  have s: "scan_string (CHR 0x22 # k @ CHR 0x22 # CHR '':'' # CHR '' '' # dumps_list v @ R)
             = Some (k, CHR '':'' # CHR '' '' # dumps_list v @ R)"
    by (rule scan_string_quoted [OF ok])
  have a: "scan_array (dumps_list v @ R) = Some (v, R)"
    by (rule scan_array_dumps_list)
  have "scan_members (dumps_item (k, v) @ R) = Some ([(k, v)], rest)"
    unfolding dumps_item_eq
    by (subst scan_members.simps) (simp add: s a skip_ws_punct skip_ws_dumps_list, simp add: R_def skip_ws_punct)
  then show ?case by (simp add: kv R_def)
next
  case (Cons kv1 kvs)
  obtain k v where kv: "kv0 = (k, v)" by (cases kv0)
  with Cons.prems have ok: "key_ok k" by simp
  obtain k1 v1 where kv1: "kv1 = (k1, v1)" by (cases kv1)
  define J where "J = join '', '' (map dumps_item (kv1 # kvs)) @ CHR ''}'' # rest"
  define R where "R = CHR '','' # CHR '' '' # J"
  have e: "join '', '' (map dumps_item (kv0 # kv1 # kvs)) @ CHR ''}'' # rest = dumps_item (k, v) @ R"
    by (simp add: kv J_def R_def)
  have s: "scan_string (CHR 0x22 # k @ CHR 0x22 # CHR '':'' # CHR '' '' # dumps_list v @ R)
             = Some (k, CHR '':'' # CHR '' '' # dumps_list v @ R)"
    by (rule scan_string_quoted [OF ok])
  have a: "scan_array (dumps_list v @ R) = Some (v, R)"
    by (rule scan_array_dumps_list)
  obtain t where "J = CHR 0x22 # t"
    by (simp add: J_def join_Cons kv1 dumps_item_def)
  then have sk: "skip_ws (CHR '' '' # J) = J"
    by (simp add: skip_ws_space skip_ws_punct)
  have ih: "scan_members J = Some (kv1 # kvs, rest)"
    unfolding J_def using Cons.prems by (intro Cons.IH) simp
  have "scan_members (dumps_item (k, v) @ R) = Some ((k, v) # kv1 # kvs, rest)"
    unfolding dumps_item_eq
    by (subst scan_members.simps) (simp add: s a skip_ws_punct skip_ws_dumps_list, simp add: R_def skip_ws_punct sk ih)
  then show ?case unfolding e by (simp add: kv)
qed

section \<open>Dicts\<close>

lemma dict_set_fresh: "k \<notin> fst ` set d \<Longrightarrow> dict_set d k v = d @ [(k, v)]"
  by (induction d) auto

lemma foldl_dict_set_distinct:
  "distinct (map fst (acc @ kvs)) \<Longrightarrow> foldl (\<lambda>d (k, v). dict_set d k v) acc kvs = acc @ kvs"
proof (induction kvs arbitrary: acc)
  case Nil
  then show ?case by simp
next
  case (Cons kv kvs)
  obtain k v where kv: "kv = (k, v)" by (cases kv)
  from Cons.prems have fresh: "k \<notin> fst ` set acc" by (auto simp: kv)
  from Cons.prems have d: "distinct (map fst ((acc @ [(k, v)]) @ kvs))" by (simp add: kv)
  show ?case
    using Cons.IH [OF d] by (simp add: kv dict_set_fresh [OF fresh])
qed

lemma dict_of_pairs_distinct: "distinct (map fst d) \<Longrightarrow> dict_of_pairs d = d"
  using foldl_dict_set_distinct [of "[]" d] by (simp add: dict_of_pairs_def)

lemma keys_dict_set: "fst ` set (dict_set d k v) = insert k (fst ` set d)"
proof (induction d)
  case Nil
  show ?case by simp
next
  case (Cons a d)
  obtain k' v' where a: "a = (k', v')" by (cases a)
  show ?case
  proof (cases "k' = k")
    case True
    then show ?thesis by (simp add: a)
  next
    case False
    then show ?thesis by (simp add: a Cons.IH insert_commute)
  qed
qed



lemma keys_fill:
  "fst ` set (foldl (\<lambda>d l. dict_set d l v) d locs) = fst ` set d \<union> set locs"
  by (induction locs arbitrary: d) (auto simp: keys_dict_set)



section \<open>Decoding what the client encodes\<close>

lemma json_loads_dumps:
  assumes "\<forall>kv\<in>set d. key_ok (fst kv)"
  shows "json_loads (json_dumps d) = Some (dict_of_pairs d)"
proof (cases d)
  case Nil
  then show ?thesis
    by (simp add: json_loads_def json_dumps_def skip_ws_punct skip_ws_Nil dict_of_pairs_def)
next
  case (Cons kv kvs)
  define J where "J = join '', '' (map dumps_item (kv # kvs)) @ ''}''"
  obtain t where t: "J = CHR 0x22 # t"
    by (simp add: J_def join_Cons dumps_item_def)
  have sk: "skip_ws J = J"
    by (simp add: t skip_ws_punct)
  have m: "scan_members J = Some (kv # kvs, [])"
    unfolding J_def using assms Cons by (intro scan_members_join) simp
  have m': "scan_members (CHR 0x22 # t) = Some (kv # kvs, [])"
    using m by (simp add: t)
  have "json_loads (CHR ''{'' # J) = Some (dict_of_pairs (kv # kvs))"
    by (simp add: json_loads_def t skip_ws_punct m' skip_ws_Nil)
  then show ?thesis
    by (simp add: Cons json_dumps_def J_def)
qed

lemma literal_eval_str_tuple: "literal_eval (str_tuple k) = Inr k"
proof -
  obtain a b where k: "k = (a, b)" by (cases k)
  have e: "str_tuple (a, b) = CHR ''('' # str_int a @ CHR '','' # CHR '' '' # str_int b @ '')''"
    by (simp add: str_tuple_def)
  have s1: "scan_int (str_int a @ CHR '','' # CHR '' '' # str_int b @ '')'')
              = Some (a, CHR '','' # CHR '' '' # str_int b @ '')'')"
    by (rule scan_int_str_int) (simp add: is_digit_def)
  have s2: "scan_int (str_int b @ '')'') = Some (b, '')'')"
    by (rule scan_int_str_int) (simp add: is_digit_def)
  have sk: "skip_ws (CHR '' '' # str_int b @ '')'') = str_int b @ '')''"
    by (simp add: skip_ws_space skip_ws_str_int)
  show ?thesis
    unfolding k e literal_eval_def
    by (simp add: skip_ws_punct skip_ws_str_int s1 s2 sk skip_ws_Nil)
qed

lemma str_tuple_inj:
  assumes "str_tuple k = str_tuple k'"
  shows "k = k'"
proof -
  have "literal_eval (str_tuple k) = literal_eval (str_tuple k')"
    using assms by (rule arg_cong)
  then show ?thesis
    by (simp only: literal_eval_str_tuple sum.inject)
qed

lemma eval_keys_str_tuple:
  "distinct (map fst (acc @ colors)) \<Longrightarrow>
   eval_keys acc (map (\<lambda>(k, v). (str_tuple k, v)) colors) = Inr (acc @ colors)"
proof (induction colors arbitrary: acc)
  case Nil
  then show ?case by simp
next
  case (Cons kv colors)
  obtain k v where kv: "kv = (k, v)" by (cases kv)
  from Cons.prems have fresh: "k \<notin> fst ` set acc" by (auto simp: kv)
  from Cons.prems have d: "distinct (map fst ((acc @ [(k, v)]) @ colors))" by (simp add: kv)
  show ?case
    using Cons.IH [OF d]
    by (simp add: kv literal_eval_str_tuple and_then_def dict_set_fresh [OF fresh])
qed

lemma distinct_str_tuple_keys:
  assumes d: "distinct (map fst colors)"
  shows "distinct (map fst (map (\<lambda>(k, v). (str_tuple k, v)) colors))"
proof -
  have eq: "map fst (map (\<lambda>(k, v). (str_tuple k, v)) colors) = map str_tuple (map fst colors)"
    by (induction colors) auto
  have inj: "inj_on str_tuple (set (map fst colors))"
    by (rule inj_onI) (rule str_tuple_inj)
  have "distinct (map str_tuple (map fst colors))"
    by (rule distinct_map [THEN iffD2]) (rule conjI [OF d inj])
  then show ?thesis
    by (simp only: eq)
qed

lemma json_loads_serialized:
  assumes "distinct (map fst colors)"
  shows "json_loads (serialized_dict colors) = Some (map (\<lambda>(k, v). (str_tuple k, v)) colors)"
proof -
  let ?items = "map (\<lambda>(k, v). (str_tuple k, v)) colors"
  have d: "distinct (map fst ?items)"
    using assms by (rule distinct_str_tuple_keys)
  have ok: "\<forall>kv\<in>set ?items. key_ok (fst kv)"
    by (auto simp: key_ok_str_tuple)
  have p: "dict_of_pairs ?items = ?items"
    using d by (rule dict_of_pairs_distinct)
  show ?thesis
    using json_loads_dumps [OF ok] by (simp add: serialized_dict_def p)
qed

lemma handle_chunk_serialized:
  assumes "distinct (map fst colors)"
  shows "handle_chunk st (serialized_dict colors)
           = Inr (st\<lparr>color_map_str := Some (map (\<lambda>(k, v). (str_tuple k, v)) colors),
                    device := update_device (set_matrix (device st) colors)\<rparr>)"
proof -
  let ?items = "map (\<lambda>(k, v). (str_tuple k, v)) colors"
  have d: "distinct (map fst ?items)"
    using assms by (rule distinct_str_tuple_keys)
  have ok: "\<forall>kv\<in>set ?items. key_ok (fst kv)"
    by (auto simp: key_ok_str_tuple)
  have p: "dict_of_pairs ?items = ?items"
    using d by (rule dict_of_pairs_distinct)
  have l: "json_loads (serialized_dict colors) = Some ?items"
    using json_loads_dumps [OF ok] by (simp add: serialized_dict_def p)
  have e: "eval_keys [] ?items = Inr colors"
    using eval_keys_str_tuple [of "[]" colors] assms by simp
  show ?thesis
    by (simp add: handle_chunk_def l e and_then_def)
qed

lemma json_loads_brace: "json_loads ''{'' = None"
  by (simp add: json_loads_def skip_ws_def is_ws_def)

section \<open>The engine's steps\<close>

lemma foldl_init_step:
  "foldl (\<lambda>s location.
            s\<lparr>location_to_count := dict_set (location_to_count s) location 0,
              location_to_color := dict_set (location_to_color s) location base\<rparr>) s locs
   = s\<lparr>location_to_count := foldl (\<lambda>d l. dict_set d l 0) (location_to_count s) locs,
       location_to_color := foldl (\<lambda>d l. dict_set d l base) (location_to_color s) locs\<rparr>"
  by (induction locs arbitrary: s) simp_all

lemma init_color_map_eq:
  "init_color_map lib s =
     s\<lparr>location_to_count :=
         foldl (\<lambda>d l. dict_set d l 0) (location_to_count s) (concat (map snd (key_to_location_map s))),
       location_to_color :=
         foldl (\<lambda>d l. dict_set d l (rgb_of lib (color_map s (IntArg 0)))) (location_to_color s)
           (concat (map snd (key_to_location_map s)))\<rparr>"
  by (simp add: init_color_map_def Let_def foldl_init_step)

lemma length_COLOR_MAPS: "length COLOR_MAPS = 10"
  by (simp add: COLOR_MAPS_def)

lemma select_next_colormap_ok:
  assumes "0 \<le> color_map_index s" "color_map_index s < 10"
  shows "select_next_colormap lib s =
           Inr (s\<lparr>color_map_index := (color_map_index s + 1) mod 10,
                  color_map_name := COLOR_MAPS ! nat ((color_map_index s + 1) mod 10),
                  color_map := get_cmap lib (COLOR_MAPS ! nat ((color_map_index s + 1) mod 10))\<rparr>)"
proof (cases "color_map_index s = 9")
  case True
  then show ?thesis
    by (simp add: select_next_colormap_def length_COLOR_MAPS list_item_def and_then_def)
next
  case False
  with assms have "(color_map_index s + 1) mod 10 = color_map_index s + 1" by simp
  with assms False show ?thesis
    by (simp add: select_next_colormap_def length_COLOR_MAPS list_item_def and_then_def Let_def)
qed

lemma select_times_index:
  assumes "0 \<le> color_map_index s" "color_map_index s < 10" "0 < n"
  shows "\<exists>s'. select_next_colormap_times lib n s = Inr s'
           \<and> color_map_index s' = (color_map_index s + int n) mod 10
           \<and> color_map_name s' = COLOR_MAPS ! nat (color_map_index s')
           \<and> color_map s' = get_cmap lib (color_map_name s')"
  using assms
proof (induction n arbitrary: s)
  case 0
  then show ?case by simp
next
  case (Suc n)
  let ?s1 = "s\<lparr>color_map_index := (color_map_index s + 1) mod 10,
                  color_map_name := COLOR_MAPS ! nat ((color_map_index s + 1) mod 10),
                  color_map := get_cmap lib (COLOR_MAPS ! nat ((color_map_index s + 1) mod 10))\<rparr>"
  have step: "select_next_colormap lib s = Inr ?s1"
    using Suc.prems by (intro select_next_colormap_ok) auto
  show ?case
  proof (cases "n = 0")
    case True
    then show ?thesis by (simp add: step and_then_def)
  next
    case False
    have "0 \<le> color_map_index ?s1" "color_map_index ?s1 < 10" by simp_all
    from Suc.IH [OF this] False obtain s' where
      s': "select_next_colormap_times lib n ?s1 = Inr s'"
        "color_map_index s' = (color_map_index ?s1 + int n) mod 10"
        "color_map_name s' = COLOR_MAPS ! nat (color_map_index s')"
        "color_map s' = get_cmap lib (color_map_name s')"
      by auto
    have "(color_map_index ?s1 + int n) mod 10 = (color_map_index s + int (Suc n)) mod 10"
      by (simp add: mod_simps algebra_simps)
    with s' show ?thesis
      by (simp add: step and_then_def)
  qed
qed

lemma refresh_ok:
  assumes "0 \<le> color_map_index s" "color_map_index s < int (length COLOR_MAPS)"
  shows "\<exists>s1. (if change_heatmap_on_refresh s then select_next_colormap lib s else Inr s) = Inr s1
          \<and> refresh lib s now' = Inr ((init_color_map lib s1)\<lparr>start_time := now'\<rparr>)
          \<and> key_name_to_count s1 = key_name_to_count s
          \<and> key_to_location_map s1 = key_to_location_map s
          \<and> location_to_count s1 = location_to_count s
          \<and> location_to_color s1 = location_to_color s
          \<and> color_map s1 = (if change_heatmap_on_refresh s then get_cmap lib (color_map_name s1) else color_map s)"
proof (cases "change_heatmap_on_refresh s")
  case True
  from assms have "select_next_colormap lib s =
           Inr (s\<lparr>color_map_index := (color_map_index s + 1) mod 10,
                  color_map_name := COLOR_MAPS ! nat ((color_map_index s + 1) mod 10),
                  color_map := get_cmap lib (COLOR_MAPS ! nat ((color_map_index s + 1) mod 10))\<rparr>)"
    by (intro select_next_colormap_ok) (simp_all add: length_COLOR_MAPS)
  with True show ?thesis
    by (simp add: refresh_def and_then_def)
next
  case False
  then show ?thesis
    by (simp add: refresh_def and_then_def)
qed


lemma fold_max_ge: "y \<in> set (x # r) \<Longrightarrow> y \<le> fold max r (x::real)"
proof -
  assume "y \<in> set (x # r)"
  then have "y \<le> Max (set (x # r))" by (intro Max_ge) simp_all
  then show ?thesis by (simp only: Max.set_eq_fold)
qed

lemma normalized_counts_nth:
  assumes "i < length cs" and "j < length cs" and "cs ! j < cs ! i" and "\<forall>c\<in>set cs. 0 \<le> (c::real)"
  shows "\<exists>lo hi. np_min cs = Inr lo \<and> np_max cs = Inr hi \<and> 0 < hi
           \<and> (cs ! j - lo) / hi \<le> (cs ! i - lo) / hi"
proof -
  from assms(1) obtain x r where cs: "cs = x # r" by (cases cs) auto
  let ?hi = "fold max r x"
  let ?lo = "fold min r x"
  have "cs ! i \<le> ?hi"
    using assms(1) by (intro fold_max_ge) (simp add: cs [symmetric])
  moreover have "0 \<le> cs ! j"
    using assms(2,4) by simp
  ultimately have pos: "0 < ?hi"
    using assms(3) by linarith
  then have "(cs ! j - ?lo) / ?hi \<le> (cs ! i - ?lo) / ?hi"
    using assms(3) by (intro divide_right_mono) simp_all
  with pos show ?thesis
    by (simp add: cs np_min_def np_max_def)
qed

lemmas eval_defs = init_def on_key_release_def record_key_def refresh_def
  update_color_map_def normalized_counts_def send_colors_to_server_def sendall_def
  init_color_map_def debug_keys_def select_next_colormap_def
  dict_of_pairs_def dict_get_def dict_incr_def and_then_def COLOR_MAPS_def
  np_min_def np_max_def np_div_def startswith_def lower_def lower_char_def is_ascii_def
  list_item_def Let_def key_name_def

lemmas demo_defs = demo_lib_def demo_cmap_def rgb_of_def py_int_def layout_ab_def


lemma pressed_engine_reached:
  "and_then (on_key_release demo_lib fresh_engine ''a'' 1 1) (\<lambda>s.
   and_then (on_key_release demo_lib s ''a'' 2 2) (\<lambda>s.
   on_key_release demo_lib s ''a'' 3 3)) = Inr pressed_engine"
  by (simp add: eval_defs demo_defs fresh_engine_def pressed_engine_def)

section \<open>The states the engine reaches\<close>

lemma list_index_Inr:
  "list_index xs x = Inr i \<Longrightarrow> 0 \<le> i \<and> i < int (length xs) \<and> xs ! nat i = x"
proof (induction xs arbitrary: i)
  case Nil
  then show ?case by simp
next
  case (Cons y ys)
  show ?case
  proof (cases "y = x")
    case True
    with Cons.prems show ?thesis by simp
  next
    case False
    with Cons.prems obtain j where j: "list_index ys x = Inr j" "i = j + 1"
      by (auto simp: and_then_def split: sum.splits)
    from Cons.IH [OF j(1)] have "0 \<le> j" "j < int (length ys)" "ys ! nat j = x" by simp_all
    moreover from this have "nat (j + 1) = Suc (nat j)" by simp
    ultimately show ?thesis using j(2) by simp
  qed
qed

lemma init_color_map_engine_ok:
  assumes "0 \<le> color_map_index s" "color_map_index s < int (length COLOR_MAPS)"
    "color_map_name s = COLOR_MAPS ! nat (color_map_index s)"
    "fst ` set (location_to_count s) \<subseteq> set (concat (map snd (key_to_location_map s)))"
    "fst ` set (location_to_color s) \<subseteq> set (concat (map snd (key_to_location_map s)))"
  shows "engine_ok (init_color_map lib s)"
  using assms by (simp add: engine_ok_def init_color_map_eq keys_fill)

lemma init_engine_ok:
  assumes "init lib keyboard_json color_map_arg refresh_interval_secs enhance change debug
             listening t0 t1 = Inr s"
  shows "engine_ok s"
proof -
  from assms obtain i where i: "list_index COLOR_MAPS color_map_arg = Inr i"
    by (cases "list_index COLOR_MAPS color_map_arg") (auto simp: init_def and_then_def)
  from list_index_Inr [OF i] have r: "0 \<le> i" "i < int (length COLOR_MAPS)"
    "COLOR_MAPS ! nat i = color_map_arg" by simp_all
  define s0 where "s0 = \<lparr>debug_mode = debug,
          key_to_location_map = keyboard_json,
          color_map_name = color_map_arg,
          color_map = get_cmap lib color_map_arg,
          color_map_index = i,
          refresh_interval = refresh_interval_secs,
          enhance_lowkeys = enhance,
          change_heatmap_on_refresh = change,
          sock = \<lparr>alive = True, wire = []\<rparr>,
          start_time = t0,
          elapsed_time = t1 - t0,
          location_to_color = [],
          location_to_count = [],
          key_name_to_count = dict_of_pairs (map (\<lambda>(k, locations). (k, 0)) keyboard_json),
          error_log = []\<rparr>"
  have "engine_ok (init_color_map lib s0)"
    using r by (intro init_color_map_engine_ok) (simp_all add: s0_def)
  moreover from assms i have "s = send_colors_to_server (init_color_map lib s0)"
    by (simp add: init_def and_then_def s0_def split: if_splits)
  ultimately show ?thesis
    by (simp add: engine_ok_def send_colors_to_server_def split: sum.splits)
qed

lemma select_next_colormap_engine_ok:
  assumes "engine_ok s" "select_next_colormap lib s = Inr s'"
  shows "engine_ok s'"
proof -
  from assms(1) have r: "0 \<le> color_map_index s" "color_map_index s < 10"
    by (simp_all add: engine_ok_def length_COLOR_MAPS)
  from assms(2) have s': "s' = s\<lparr>color_map_index := (color_map_index s + 1) mod 10,
                  color_map_name := COLOR_MAPS ! nat ((color_map_index s + 1) mod 10),
                  color_map := get_cmap lib (COLOR_MAPS ! nat ((color_map_index s + 1) mod 10))\<rparr>"
    unfolding select_next_colormap_ok [OF r] by simp
  show ?thesis
    using assms(1) by (simp add: s' engine_ok_def length_COLOR_MAPS)
qed

lemma refresh_engine_ok:
  assumes "engine_ok s" "refresh lib s now' = Inr s'"
  shows "engine_ok s'"
proof -
  from assms(2) obtain s1 where
    s1: "(if change_heatmap_on_refresh s then select_next_colormap lib s else Inr s) = Inr s1"
      "s' = (init_color_map lib s1)\<lparr>start_time := now'\<rparr>"
    by (auto simp: refresh_def and_then_def split: sum.splits)
  have "engine_ok s1"
    using s1(1) assms(1) by (auto split: if_splits intro: select_next_colormap_engine_ok)
  then have "engine_ok (init_color_map lib s1)"
    by (intro init_color_map_engine_ok) (simp_all add: engine_ok_def)
  then show ?thesis
    by (simp add: s1(2) engine_ok_def)
qed

lemma dict_incr_keys: "dict_incr d k = Inr d' \<Longrightarrow> fst ` set d' = fst ` set d"
proof -
  assume a: "dict_incr d k = Inr d'"
  then obtain c where c: "map_of d k = Some c" "d' = dict_set d k (c + 1)"
    by (auto simp: dict_incr_def dict_get_def split: option.splits)
  from c(1) have "k \<in> fst ` set d"
    using map_of_eq_None_iff [of d k] by auto
  with c(2) show ?thesis
    by (auto simp: keys_dict_set)
qed

lemma count_locations_keys:
  "count_locations d locations = Inr d' \<Longrightarrow> fst ` set d' = fst ` set d"
proof (induction locations arbitrary: d)
  case Nil
  then show ?case by simp
next
  case (Cons loc locations)
  from Cons.prems obtain d1 where d1: "dict_incr d loc = Inr d1"
    "count_locations d1 locations = Inr d'"
    by (auto simp: and_then_def split: sum.splits)
  from Cons.IH [OF d1(2)] dict_incr_keys [OF d1(1)] show ?case by simp
qed

lemma debug_keys_engine_ok:
  assumes "engine_ok s" "debug_keys lib s str_key = Inr s'"
  shows "engine_ok s'"
proof (cases "debug_mode s")
  case False
  with assms show ?thesis by (simp add: debug_keys_def)
next
  case True
  with assms(2) obtain s1 where
    s1: "(if str_key = ''Key.f2'' then select_next_colormap lib s else Inr s) = Inr s1"
      "s' = (if str_key = ''Key.f3'' then s1\<lparr>enhance_lowkeys := \<not> enhance_lowkeys s1\<rparr> else s1)"
    by (auto simp: debug_keys_def and_then_def split: sum.splits)
  have "engine_ok s1"
    using s1(1) assms(1) by (auto split: if_splits intro: select_next_colormap_engine_ok)
  then show ?thesis
    by (simp add: s1(2) engine_ok_def)
qed

lemma foldl_color_step:
  "foldl (\<lambda>s (location, normalized_count).
            s\<lparr>location_to_color :=
                dict_set (location_to_color s) location
                  (rgb_of lib (color_map s (FloatArg normalized_count)))\<rparr>) s ps
   = s\<lparr>location_to_color :=
         foldl (\<lambda>d (location, normalized_count).
                  dict_set d location (rgb_of lib (color_map s (FloatArg normalized_count))))
           (location_to_color s) ps\<rparr>"
  by (induction ps arbitrary: s) (simp_all add: case_prod_unfold)

lemma keys_foldl_pairs:
  "fst ` set (foldl (\<lambda>d (k, x). dict_set d k (f x)) d ps) = fst ` set d \<union> fst ` set ps"
proof (induction ps arbitrary: d)
  case Nil
  show ?case by simp
next
  case (Cons p ps)
  obtain k x where p: "p = (k, x)" by (cases p)
  show ?case
    by (simp add: p Cons.IH keys_dict_set Un_commute insert_commute Un_left_commute)
qed

lemma update_color_map_engine_ok:
  assumes "engine_ok s" "update_color_map lib s = Inr s'"
  shows "engine_ok s'"
proof -
  from assms(2) obtain normalized where
    n: "s' = foldl (\<lambda>s (location, normalized_count).
            s\<lparr>location_to_color :=
                dict_set (location_to_color s) location
                  (rgb_of lib (color_map s (FloatArg normalized_count)))\<rparr>) s
              (zip (map fst (location_to_count s)) normalized)"
    by (auto simp: update_color_map_def and_then_def split: sum.splits)
  have "fst ` set (zip (map fst (location_to_count s)) normalized) \<subseteq> fst ` set (location_to_count s)"
    by (auto dest: set_zip_leftD)
  also have "\<dots> \<subseteq> set (concat (map snd (key_to_location_map s)))"
    using assms(1) by (simp add: engine_ok_def)
  finally show ?thesis
    using assms(1) unfolding n foldl_color_step
    by (simp add: engine_ok_def keys_foldl_pairs)
qed

lemma record_key_engine_ok:
  assumes "engine_ok s" "record_key lib s key = Inr s'"
  shows "engine_ok s'"
proof (cases "dict_get (key_to_location_map s) (key_name lib key)")
  case None
  with assms show ?thesis by (simp add: record_key_def Let_def)
next
  case (Some locations)
  with assms(2) obtain names counts s2 s3 where
    st: "count_locations (location_to_count s) locations = Inr counts"
      "debug_keys lib (s\<lparr>key_name_to_count := names, location_to_count := counts\<rparr>)
         (key_name lib key) = Inr s2"
      "update_color_map lib s2 = Inr s3"
      "s' = send_colors_to_server s3"
    by (auto simp: record_key_def Let_def and_then_def split: sum.splits)
  have "engine_ok (s\<lparr>key_name_to_count := names, location_to_count := counts\<rparr>)"
    using assms(1) count_locations_keys [OF st(1)] by (simp add: engine_ok_def)
  then have "engine_ok s2" using st(2) by (rule debug_keys_engine_ok)
  then have "engine_ok s3" using st(3) by (rule update_color_map_engine_ok)
  then show ?thesis
    by (simp add: st(4) engine_ok_def send_colors_to_server_def split: sum.splits)
qed

lemma on_key_release_engine_ok:
  assumes "engine_ok s" "on_key_release lib s key now now' = Inr s'"
  shows "engine_ok s'"
proof -
  let ?s0 = "s\<lparr>elapsed_time := now - start_time s\<rparr>"
  have ok0: "engine_ok ?s0" using assms(1) by (simp add: engine_ok_def)
  from assms(2) obtain s1 where
    s1: "(if refresh_interval s < now - start_time s then refresh lib ?s0 now' else Inr ?s0) = Inr s1"
      "record_key lib s1 key = Inr s'"
    by (auto simp: on_key_release_def Let_def and_then_def split: sum.splits)
  have "engine_ok s1"
    using s1(1) ok0 by (auto split: if_splits intro: refresh_engine_ok)
  then show ?thesis using s1(2) by (rule record_key_engine_ok)
qed

section \<open>The claims\<close>

text \<open>
  \<^bold>\<open>C1\<close> (the code departs from the claim). The claim: when the maximum of the counts is 0,
  every normalized value is 0 and every colour is the palette's value at 0. The code divides by
  the maximum without a guard. With the layout \<^verbatim>\<open>{"a": [], "b": [[0,0]]}\<close>, a release of
  \<^verbatim>\<open>a\<close> counts no location, \<^verbatim>\<open>__update_color_map\<close> runs on the counts \<^verbatim>\<open>[0]\<close>, the normalized
  value is \<^verbatim>\<open>nan\<close> and the colour is the palette's value at \<^verbatim>\<open>nan\<close>.
\<close>

theorem all_zero_counts_give_nan:
  "and_then (init lib layout_a_empty ''hot'' 3600 False False False True 0 0) (\<lambda>s.
   and_then (on_key_release lib s ''a'' 1 1) (\<lambda>s.
     Inr (location_to_count s, normalized_counts s, location_to_color s)))
   = Inr ([((0, 0), 0)], Inr [NaN], [((0, 0), rgb_of lib (get_cmap lib ''hot'' (FloatArg NaN)))])"
  by (simp add: eval_defs layout_a_empty_def)

text \<open>
  \<^bold>\<open>C2\<close> (the code departs from the claim). The claim: a chunk that is not well-formed JSON is
  logged and skipped, nothing is applied to the device, and the loop goes on. The \<^verbatim>\<open>except\<close>
  branch has no \<^verbatim>\<open>continue\<close>: when the first chunk is malformed the loop ends with
  \<^verbatim>\<open>UnboundLocalError\<close>; when a well-formed message came before, the malformed chunk is logged
  and the earlier message is written to the device and drawn a second time.
\<close>

theorem malformed_chunk_not_skipped:
  "start_listening new_server [''{''] = Inl UnboundLocalError \<and>
   and_then (start_listening new_server [serialized_dict [((0, 0), [255, 0, 0])], ''{'']) (\<lambda>st.
     Inr (matrix (device st), length (frames (device st)), errors st))
   = Inr ([((0, 0), [255, 0, 0])], 2, [''Error decoding JSON...''])"
proof -
  have a: "start_listening new_server [''{''] = Inl UnboundLocalError"
    by (simp add: handle_chunk_def json_loads_brace new_server_def and_then_def)
  have ne: "serialized_dict [((0, 0), [255, 0, 0])] \<noteq> []"
    by (simp add: serialized_dict_def json_dumps_def)
  have h: "handle_chunk new_server (serialized_dict [((0, 0), [255, 0, 0])])
           = Inr (new_server\<lparr>color_map_str := Some [(str_tuple (0, 0), [255, 0, 0])],
                    device := update_device (set_matrix (device new_server) [((0, 0), [255, 0, 0])])\<rparr>)"
    using handle_chunk_serialized [of "[((0, 0), [255, 0, 0])]" new_server] by simp
  let ?st1 = "new_server\<lparr>color_map_str := Some [(str_tuple (0, 0), [255, 0, 0])],
      device := update_device (set_matrix (device new_server) [((0, 0), [255, 0, 0])])\<rparr>"
  have "\<exists>st2. handle_chunk ?st1 ''{'' = Inr st2
          \<and> matrix (device st2) = [((0, 0), [255, 0, 0])]
          \<and> length (frames (device st2)) = 2
          \<and> errors st2 = [''Error decoding JSON...'']"
    by (simp add: handle_chunk_def json_loads_brace and_then_def literal_eval_str_tuple
        set_matrix_def update_device_def new_server_def)
  then obtain st2 where st2: "handle_chunk ?st1 ''{'' = Inr st2"
    "matrix (device st2) = [((0, 0), [255, 0, 0])]"
    "length (frames (device st2)) = 2"
    "errors st2 = [''Error decoding JSON...'']"
    by blast
  have b: "and_then (start_listening new_server [serialized_dict [((0, 0), [255, 0, 0])], ''{'']) (\<lambda>st.
     Inr (matrix (device st), length (frames (device st)), errors st))
   = Inr ([((0, 0), [255, 0, 0])], 2, [''Error decoding JSON...''])"
    by (simp add: ne h st2 and_then_def)
  from a b show ?thesis by (rule conjI)
qed

text \<open>
  \<^bold>\<open>C3\<close> (amended). The claim: a key name that is not in the layout changes nothing of the
  engine's state, also when the elapsed time exceeds the refresh interval. The refresh test
  comes before the lookup of the key, so what holds is: for a key name that is not in the
  layout (and a palette cursor inside the registry), \<^verbatim>\<open>on_key_release\<close> raises nothing and does
  exactly its first step. When the elapsed time does not exceed the refresh interval, the state
  is unchanged but for the stored \<^verbatim>\<open>elapsed_time\<close>; when it does, the state is the one the
  refresh leaves. No count is applied, no colour is recomputed and nothing is sent. The key
  name is \<^verbatim>\<open>str(key)\<close>, lowered by \<^verbatim>\<open>str.lower()\<close> unless it starts with \<^verbatim>\<open>Key\<close>, for every
  \<^verbatim>\<open>str.lower()\<close> on strings outside ASCII.
\<close>

theorem unmapped_key_release:
  assumes "dict_get (key_to_location_map s) (key_name lib key) = None"
      and "0 \<le> color_map_index s" and "color_map_index s < int (length COLOR_MAPS)"
  shows "on_key_release lib s key now now' =
           (if refresh_interval s < now - start_time s
            then refresh lib (s\<lparr>elapsed_time := now - start_time s\<rparr>) now'
            else Inr (s\<lparr>elapsed_time := now - start_time s\<rparr>))
         \<and> (\<exists>s'. on_key_release lib s key now now' = Inr s')"
proof -
  let ?s0 = "s\<lparr>elapsed_time := now - start_time s\<rparr>"
  have r: "0 \<le> color_map_index ?s0" "color_map_index ?s0 < int (length COLOR_MAPS)"
    using assms by simp_all
  from refresh_ok [OF r, of lib now'] obtain s1 where
    s1: "refresh lib ?s0 now' = Inr ((init_color_map lib s1)\<lparr>start_time := now'\<rparr>)"
      "key_to_location_map s1 = key_to_location_map s"
    by auto
  let ?s2 = "(init_color_map lib s1)\<lparr>start_time := now'\<rparr>"
  have k2: "key_to_location_map ?s2 = key_to_location_map s"
    by (simp add: init_color_map_eq s1)
  have "record_key lib ?s2 key = Inr ?s2"
    using assms(1) by (simp add: record_key_def Let_def k2)
  moreover have "record_key lib ?s0 key = Inr ?s0"
    using assms(1) by (simp add: record_key_def Let_def)
  ultimately show ?thesis
    using s1(1) by (simp add: on_key_release_def Let_def and_then_def)
qed

theorem unmapped_key_release_witness:
  "dict_get (key_to_location_map pressed_engine) (key_name demo_lib ''zzz'') = None \<and>
   0 \<le> color_map_index pressed_engine \<and> color_map_index pressed_engine < int (length COLOR_MAPS) \<and>
   location_to_count pressed_engine = [((0, 0), 3), ((0, 1), 0)] \<and>
   on_key_release demo_lib pressed_engine ''zzz'' 5 5 = Inr (pressed_engine\<lparr>elapsed_time := 5\<rparr>)"
proof -
  have h1: "dict_get (key_to_location_map pressed_engine) (key_name demo_lib ''zzz'') = None"
    by (simp add: pressed_engine_def layout_ab_def eval_defs)
  have h2: "0 \<le> color_map_index pressed_engine"
    by (simp add: pressed_engine_def)
  have h3: "color_map_index pressed_engine < int (length COLOR_MAPS)"
    by (simp add: pressed_engine_def COLOR_MAPS_def)
  have l: "location_to_count pressed_engine = [((0, 0), 3), ((0, 1), 0)]"
    by (simp add: pressed_engine_def)
  have "on_key_release demo_lib pressed_engine ''zzz'' 5 5 = Inr (pressed_engine\<lparr>elapsed_time := 5\<rparr>)"
    using unmapped_key_release [OF h1 h2 h3, of 5 5]
    by (simp add: pressed_engine_def)
  with h1 h2 h3 l show ?thesis by blast
qed

text \<open>
  The claim as stated fails: after one release of \<^verbatim>\<open>a\<close>, a release of the unmapped key
  \<^verbatim>\<open>zzz\<close> 4000 seconds after the start sets the count of (0, 0) from 1 back to 0.
\<close>

theorem unmapped_key_after_interval_resets:
  "and_then (init demo_lib layout_ab ''hot'' 3600 False False False True 0 0) (\<lambda>s.
   and_then (on_key_release demo_lib s ''a'' 1 1) (\<lambda>s.
   and_then (on_key_release demo_lib s ''zzz'' 4000 4000) (\<lambda>s'.
     Inr (dict_get (key_to_location_map s) (key_name demo_lib ''zzz''),
          location_to_count s, location_to_count s'))))
   = Inr (None, [((0, 0), 1), ((0, 1), 0)], [((0, 0), 0), ((0, 1), 0)])"
  by (simp add: eval_defs layout_ab_def)



text \<open>
  \<^bold>\<open>C5\<close>. For every colour assignment (a dict: its keys are distinct), what the client sends
  for it is decoded by the server into the same assignment: \<^verbatim>\<open>json.loads\<close> succeeds,
  \<^verbatim>\<open>ast.literal_eval\<close> of the keys gives back the locations in the same order with the same
  colours, and one pass of the read loop writes exactly this assignment to the device.
\<close>

theorem wire_round_trip:
  assumes "distinct (map fst colors)"
  shows "\<exists>items. json_loads (serialized_dict colors) = Some items
           \<and> eval_keys [] items = Inr colors
           \<and> handle_chunk st (serialized_dict colors)
               = Inr (st\<lparr>color_map_str := Some items,
                        device := update_device (set_matrix (device st) colors)\<rparr>)"
proof -
  let ?items = "map (\<lambda>(k, v). (str_tuple k, v)) colors"
  have l: "json_loads (serialized_dict colors) = Some ?items"
    using assms by (rule json_loads_serialized)
  have e: "eval_keys [] ?items = Inr colors"
    using eval_keys_str_tuple [of "[]" colors] assms by simp
  have h: "handle_chunk st (serialized_dict colors)
               = Inr (st\<lparr>color_map_str := Some ?items,
                        device := update_device (set_matrix (device st) colors)\<rparr>)"
    using assms by (rule handle_chunk_serialized)
  show ?thesis
  proof (intro exI conjI)
    show "json_loads (serialized_dict colors) = Some ?items" by (fact l)
    show "eval_keys [] ?items = Inr colors" by (fact e)
    show "handle_chunk st (serialized_dict colors)
               = Inr (st\<lparr>color_map_str := Some ?items,
                        device := update_device (set_matrix (device st) colors)\<rparr>)" by (fact h)
  qed
qed

theorem wire_round_trip_witness:
  "distinct (map fst [((0, 0), [255, 0, 0]), ((0::int, 1::int), [0, 128, 7::int])]) \<and>
   json_loads (serialized_dict [((0, 0), [255, 0, 0]), ((0, 1), [0, 128, 7])])
     = Some [(str_tuple (0, 0), [255, 0, 0]), (str_tuple (0, 1), [0, 128, 7])] \<and>
   eval_keys [] [(str_tuple (0, 0), [255, 0, 0]), (str_tuple (0, 1), [0, 128, 7])]
     = Inr [((0, 0), [255, 0, 0]), ((0, 1), [0, 128, 7])]"
proof -
  have h: "distinct (map fst [((0, 0), [255, 0, 0]), ((0::int, 1::int), [0, 128, 7::int])])"
    by simp
  from wire_round_trip [OF h, of new_server] obtain items where
    i: "json_loads (serialized_dict [((0, 0), [255, 0, 0]), ((0, 1), [0, 128, 7])]) = Some items"
      "eval_keys [] items = Inr [((0, 0), [255, 0, 0]), ((0, 1), [0, 128, 7])]"
    by blast
  have "json_loads (serialized_dict [((0, 0), [255, 0, 0]), ((0, 1), [0, 128, 7])])
     = Some [(str_tuple (0, 0), [255, 0, 0]), (str_tuple (0, 1), [0, 128, 7])]"
    using json_loads_serialized [OF h] by simp
  with h i show ?thesis by auto
qed



text \<open>
  \<^bold>\<open>C7\<close>. For every state of the engine and every two entries of the counts, when the count at
  \<open>i\<close> is strictly greater than the count at \<open>j\<close>, the normalization returns, and the
  normalized value at \<open>i\<close> is greater than or equal to the one at \<open>j\<close>, with and without lowkey
  enhancement.
\<close>

theorem normalized_counts_monotone:
  assumes "i < length (location_to_count s)" and "j < length (location_to_count s)"
      and "snd (location_to_count s ! j) < snd (location_to_count s ! i)"
  shows "\<exists>ns. normalized_counts s = Inr ns \<and> length ns = length (location_to_count s)
           \<and> np_le (ns ! j) (ns ! i)"
proof -
  let ?counts = "map (\<lambda>(location, count). real count) (location_to_count s)"
  let ?cs = "if enhance_lowkeys s then map sqrt ?counts else ?counts"
  have len: "length ?cs = length (location_to_count s)" by simp
  have lt: "?cs ! j < ?cs ! i"
    using assms by (simp add: case_prod_unfold)
  have nn: "\<forall>c\<in>set ?cs. 0 \<le> c"
    by auto
  from normalized_counts_nth [of i ?cs j] assms(1,2) lt nn len obtain lo hi where
    lh: "np_min ?cs = Inr lo" "np_max ?cs = Inr hi" "0 < hi"
      "(?cs ! j - lo) / hi \<le> (?cs ! i - lo) / hi"
    by metis
  let ?ns = "map (\<lambda>c. np_div (c - lo) hi) ?cs"
  have n: "normalized_counts s = Inr ?ns"
    using lh(1,2) by (simp add: normalized_counts_def Let_def and_then_def)
  have "?ns ! j = Fin ((?cs ! j - lo) / hi)" "?ns ! i = Fin ((?cs ! i - lo) / hi)"
    using assms(1,2) lh(3) len by (simp_all add: np_div_def del: if_split)
  then have le: "np_le (?ns ! j) (?ns ! i)"
    using lh(4) by simp
  show ?thesis
  proof (intro exI conjI)
    show "normalized_counts s = Inr ?ns" by (fact n)
    show "length ?ns = length (location_to_count s)" by simp
    show "np_le (?ns ! j) (?ns ! i)" by (fact le)
  qed
qed

theorem normalized_counts_monotone_witness:
  "(0::nat) < length (location_to_count pressed_engine) \<and>
   (1::nat) < length (location_to_count pressed_engine) \<and>
   snd (location_to_count pressed_engine ! 1) < snd (location_to_count pressed_engine ! 0) \<and>
   normalized_counts pressed_engine = Inr [Fin 1, Fin 0] \<and> np_le (Fin 0) (Fin 1)"
proof -
  have h1: "(0::nat) < length (location_to_count pressed_engine)"
    and h2: "(1::nat) < length (location_to_count pressed_engine)"
    and h3: "snd (location_to_count pressed_engine ! 1) < snd (location_to_count pressed_engine ! 0)"
    by (simp_all add: pressed_engine_def)
  from normalized_counts_monotone [OF h1 h2 h3] obtain ns where
    "normalized_counts pressed_engine = Inr ns" "np_le (ns ! 1) (ns ! 0)"
    by blast
  moreover have "normalized_counts pressed_engine = Inr [Fin 1, Fin 0]"
    by (simp add: pressed_engine_def fresh_engine_def eval_defs)
  ultimately have "np_le (Fin 0) (Fin 1)" by simp
  with h1 h2 h3 \<open>normalized_counts pressed_engine = Inr [Fin 1, Fin 0]\<close> show ?thesis by blast
qed

text \<open>
  \<^bold>\<open>C8\<close>. From every cursor position inside the registry, with the palette name the one the
  cursor points at (as \<^verbatim>\<open>__init__\<close> sets them): one call of \<^verbatim>\<open>__select_next_colormap\<close> raises
  nothing, moves the cursor to the next position of the registry (from the last one to the
  first), binds the name and the palette found there and changes nothing else; \<open>n\<close> calls
  move the cursor \<open>n\<close> positions on, modulo the length of the registry; and as many calls as the
  registry is long bring the cursor, the palette name and the palette back.
\<close>

theorem select_next_colormap_circular:
  assumes "0 \<le> color_map_index s"
      and "color_map_index s < int (length COLOR_MAPS)"
      and "color_map_name s = COLOR_MAPS ! nat (color_map_index s)"
  shows "select_next_colormap lib s =
           Inr (s\<lparr>color_map_index := (color_map_index s + 1) mod int (length COLOR_MAPS),
                  color_map_name :=
                    COLOR_MAPS ! nat ((color_map_index s + 1) mod int (length COLOR_MAPS)),
                  color_map :=
                    get_cmap lib
                      (COLOR_MAPS ! nat ((color_map_index s + 1) mod int (length COLOR_MAPS)))\<rparr>)
         \<and> (\<forall>n. \<exists>s'. select_next_colormap_times lib n s = Inr s'
                \<and> color_map_index s' = (color_map_index s + int n) mod int (length COLOR_MAPS)
                \<and> color_map_name s' = COLOR_MAPS ! nat (color_map_index s'))
         \<and> (\<exists>s'. select_next_colormap_times lib (length COLOR_MAPS) s = Inr s'
                \<and> color_map_index s' = color_map_index s
                \<and> color_map_name s' = color_map_name s
                \<and> color_map s' = get_cmap lib (color_map_name s))"
proof -
  from assms have r: "0 \<le> color_map_index s" "color_map_index s < 10"
    by (simp_all add: length_COLOR_MAPS)
  have one: "select_next_colormap lib s =
           Inr (s\<lparr>color_map_index := (color_map_index s + 1) mod int (length COLOR_MAPS),
                  color_map_name :=
                    COLOR_MAPS ! nat ((color_map_index s + 1) mod int (length COLOR_MAPS)),
                  color_map :=
                    get_cmap lib
                      (COLOR_MAPS ! nat ((color_map_index s + 1) mod int (length COLOR_MAPS)))\<rparr>)"
    using select_next_colormap_ok [OF r, of lib] by (simp add: length_COLOR_MAPS)
  have many: "\<exists>s'. select_next_colormap_times lib n s = Inr s'
                \<and> color_map_index s' = (color_map_index s + int n) mod int (length COLOR_MAPS)
                \<and> color_map_name s' = COLOR_MAPS ! nat (color_map_index s')" for n
  proof (cases "n = 0")
    case True
    with r assms(3) show ?thesis by (simp add: length_COLOR_MAPS)
  next
    case False
    then have "0 < n" by simp
    from select_times_index [OF r this, of lib] show ?thesis
      by (auto simp: length_COLOR_MAPS)
  qed
  from select_times_index [OF r, of 10 lib] obtain s' where
    s': "select_next_colormap_times lib 10 s = Inr s'"
      "color_map_index s' = (color_map_index s + int 10) mod 10"
      "color_map_name s' = COLOR_MAPS ! nat (color_map_index s')"
      "color_map s' = get_cmap lib (color_map_name s')"
    by auto
  from s'(2) r have i: "color_map_index s' = color_map_index s" by simp
  with s' assms(3) have cycle: "\<exists>s'. select_next_colormap_times lib (length COLOR_MAPS) s = Inr s'
                \<and> color_map_index s' = color_map_index s
                \<and> color_map_name s' = color_map_name s
                \<and> color_map s' = get_cmap lib (color_map_name s)"
    by (simp add: length_COLOR_MAPS)
  from one many cycle show ?thesis by blast
qed

theorem select_next_colormap_circular_witness:
  "0 \<le> color_map_index fresh_engine \<and> color_map_index fresh_engine < int (length COLOR_MAPS) \<and>
   color_map_name fresh_engine = COLOR_MAPS ! nat (color_map_index fresh_engine) \<and>
   select_next_colormap demo_lib fresh_engine =
     Inr (fresh_engine\<lparr>color_map_index := 3, color_map_name := ''bwr'',
            color_map := demo_cmap ''bwr''\<rparr>) \<and>
   (\<exists>s'. select_next_colormap_times demo_lib 8 fresh_engine = Inr s'
      \<and> color_map_index s' = 0 \<and> color_map_name s' = ''jet'') \<and>
   (\<exists>s'. select_next_colormap_times demo_lib (length COLOR_MAPS) fresh_engine = Inr s'
      \<and> color_map_index s' = 2 \<and> color_map_name s' = ''hot'')"
proof -
  have h1: "0 \<le> color_map_index fresh_engine"
    and h2: "color_map_index fresh_engine < int (length COLOR_MAPS)"
    and h3: "color_map_name fresh_engine = COLOR_MAPS ! nat (color_map_index fresh_engine)"
    by (simp_all add: fresh_engine_def COLOR_MAPS_def)
  note c = select_next_colormap_circular [OF h1 h2 h3, of demo_lib]
  from c have one: "select_next_colormap demo_lib fresh_engine =
     Inr (fresh_engine\<lparr>color_map_index := 3, color_map_name := ''bwr'',
            color_map := demo_cmap ''bwr''\<rparr>)"
    by (simp add: fresh_engine_def COLOR_MAPS_def demo_lib_def)
  from c have "\<exists>s'. select_next_colormap_times demo_lib 8 fresh_engine = Inr s'
      \<and> color_map_index s' = (color_map_index fresh_engine + int 8) mod int (length COLOR_MAPS)
      \<and> color_map_name s' = COLOR_MAPS ! nat (color_map_index s')"
    by blast
  then have wrap: "\<exists>s'. select_next_colormap_times demo_lib 8 fresh_engine = Inr s'
      \<and> color_map_index s' = 0 \<and> color_map_name s' = ''jet''"
    by (auto simp: fresh_engine_def COLOR_MAPS_def)
  from c have "\<exists>s'. select_next_colormap_times demo_lib (length COLOR_MAPS) fresh_engine = Inr s'
      \<and> color_map_index s' = color_map_index fresh_engine
      \<and> color_map_name s' = color_map_name fresh_engine"
    by blast
  then have cycle: "\<exists>s'. select_next_colormap_times demo_lib (length COLOR_MAPS) fresh_engine = Inr s'
      \<and> color_map_index s' = 2 \<and> color_map_name s' = ''hot''"
    by (simp add: fresh_engine_def)
  from h1 h2 h3 one wrap cycle show ?thesis by blast
qed

text \<open>
  \<^bold>\<open>C9\<close>. The refresh (lines 106-109) raises nothing when the cursor is inside the registry, and
  the key-name counters are the same after it as before it.
\<close>

theorem refresh_keeps_key_name_counts:
  assumes "0 \<le> color_map_index s" and "color_map_index s < int (length COLOR_MAPS)"
  shows "\<exists>s1. refresh lib s now' = Inr s1 \<and> key_name_to_count s1 = key_name_to_count s"
proof -
  from refresh_ok [OF assms, of lib now'] obtain s1 where
    "refresh lib s now' = Inr ((init_color_map lib s1)\<lparr>start_time := now'\<rparr>)"
    "key_name_to_count s1 = key_name_to_count s"
    by auto
  then show ?thesis by (simp add: init_color_map_eq)
qed

theorem refresh_keeps_key_name_counts_witness:
  "0 \<le> color_map_index pressed_engine \<and> color_map_index pressed_engine < int (length COLOR_MAPS) \<and>
   key_name_to_count pressed_engine = [(''a'', 3), (''b'', 0)] \<and>
   location_to_count pressed_engine = [((0, 0), 3), ((0, 1), 0)] \<and>
   (\<exists>s1. refresh demo_lib pressed_engine 4001 = Inr s1
      \<and> key_name_to_count s1 = [(''a'', 3), (''b'', 0)]
      \<and> location_to_count s1 = [((0, 0), 0), ((0, 1), 0)])"
proof -
  have h1: "0 \<le> color_map_index pressed_engine"
    and h2: "color_map_index pressed_engine < int (length COLOR_MAPS)"
    by (simp_all add: pressed_engine_def COLOR_MAPS_def)
  have k: "key_name_to_count pressed_engine = [(''a'', 3), (''b'', 0)]"
    and l: "location_to_count pressed_engine = [((0, 0), 3), ((0, 1), 0)]"
    by (simp_all add: pressed_engine_def)
  from refresh_keeps_key_name_counts [OF h1 h2, of demo_lib 4001] obtain s1 where
    s1: "refresh demo_lib pressed_engine 4001 = Inr s1"
      "key_name_to_count s1 = key_name_to_count pressed_engine"
    by blast
  from s1(1) have "location_to_count s1 = [((0, 0), 0), ((0, 1), 0)]"
    by (auto simp: pressed_engine_def demo_defs eval_defs)
  with s1 k have "\<exists>s1. refresh demo_lib pressed_engine 4001 = Inr s1
      \<and> key_name_to_count s1 = [(''a'', 3), (''b'', 0)]
      \<and> location_to_count s1 = [((0, 0), 0), ((0, 1), 0)]"
    by simp
  with h1 h2 k l show ?thesis by blast
qed



end
